theory Spec2Isabelle
  imports Complex_Main "HOL-Library.Monad_Syntax"
begin

section \<open>The structured mesh generator \<open>stk::io::util::GeneratedMesh\<close>\<close>

text \<open>
  The development embeds \<^verbatim>\<open>packages/stk/stk_util/stk_util/unit_test_support/GeneratedMesh.cpp\<close>.
  Every member function becomes a HOL function on a record of the member variables.

  \<^item> The header \<^verbatim>\<open>GeneratedMesh.hpp\<close>, which declares the types of the member variables, is
    not among the sources. The interval counts, the rank and the processor count are
    values of \<open>size_t\<close>, as the source computes with them: natural numbers, with every
    result of \<open>size_t\<close> arithmetic reduced modulo \<open>2^64\<close>. The entries of the
    \<open>std::vector<int>\<close> results are integers, and the conversion of a \<open>size_t\<close> to
    \<open>int\<close> keeps the low 32 bits as a number in two's complement.
  \<^item> Loop counters, the limits \<open>myStartZ + myNumZ\<close> of the loops over the layers of a
    slab, and running subscripts are not reduced: they count layers of the slab and
    elements of vectors that the generator fills.
  \<^item> \<open>double\<close> is a type parameter \<open>'d\<close>. Its operations, the C library functions and
    the tokenizer of \<^verbatim>\<open>tokenize.hpp\<close> are the fields of a record, the platform, that
    every function using them takes as its first argument. Nothing is assumed about
    them, so a theorem holds for IEEE arithmetic as it does for the reals.
  \<^item> A function that can fail returns an \<open>option\<close>: \<open>None\<close> stands for a failed
    \<open>assert\<close> (the assertions are taken as compiled in) and for an access to a vector
    outside its bounds.
  \<^item> A \<open>std::vector\<close> passed by reference is an argument and a result.
  \<^item> Text written to \<open>std::cerr\<close> is returned as a list of messages.
\<close>

subsection \<open>Machine integers\<close>

text \<open>
  \<open>size_t n\<close> is the value in \<open>size_t\<close> of an expression whose value on the naturals is
  \<open>n\<close>; sums and products may be reduced at every step or once at the end, with the same
  result. \<open>size_t_minus a b\<close> is the unsigned difference \<open>a - b\<close>, which wraps around
  when \<open>b\<close> is the larger. \<open>static_cast_int n\<close> is \<open>static_cast<int>(n)\<close> for a
  \<open>size_t\<close> \<open>n\<close>, and the implicit conversion where a \<open>size_t\<close> is assigned to an
  \<open>int\<close>.
\<close>

definition size_t :: "nat \<Rightarrow> nat" where
  "size_t n = nat (int n mod 2 ^ 64)"

definition size_t_minus :: "nat \<Rightarrow> nat \<Rightarrow> nat" where
  "size_t_minus a b = nat ((int a - int b) mod 2 ^ 64)"

definition static_cast_int :: "nat \<Rightarrow> int" where
  "static_cast_int n = (let k = int n mod 2 ^ 32 in if k < 2 ^ 31 then k else k - 2 ^ 32)"

subsection \<open>Vectors, assertions and loops\<close>

definition vec_get :: "'a list \<Rightarrow> nat \<Rightarrow> 'a option" where
  "vec_get v i = (if i < length v then Some (v ! i) else None)"

definition vec_set :: "'a list \<Rightarrow> nat \<Rightarrow> 'a \<Rightarrow> 'a list option" where
  "vec_set v i a = (if i < length v then Some (v[i := a]) else None)"

text \<open>\<open>v.resize(n)\<close>: the first \<open>n\<close> elements are kept, new elements are value-initialised.\<close>

definition resize :: "nat \<Rightarrow> 'a \<Rightarrow> 'a list \<Rightarrow> 'a list" where
  "resize n z v = take n v @ replicate (n - length v) z"

definition assert :: "bool \<Rightarrow> unit option" where
  "assert b = (if b then Some () else None)"

text \<open>
  \<open>for (i = a; i < b; i++) body\<close> is \<open>for_loop [a..<b] body\<close>: the body is run on the
  state for each index in turn and the loop stops at the first failure.
\<close>

primrec for_loop :: "nat list \<Rightarrow> (nat \<Rightarrow> 's \<Rightarrow> 's option) \<Rightarrow> 's \<Rightarrow> 's option" where
  "for_loop [] body s = Some s"
| "for_loop (i # js) body s = Option.bind (body i s) (for_loop js body)"

text \<open>The indices of \<open>for (i = i0; i < n; i += d)\<close>.\<close>

function stride :: "nat \<Rightarrow> nat \<Rightarrow> nat \<Rightarrow> nat list" where
  "stride i n d = (if i < n \<and> 0 < d then i # stride (i + d) n d else [])"
  by pat_completeness auto
termination
  by (relation "measure (\<lambda>(i, n, d). n - i)") auto

declare stride.simps [simp del]

text \<open>A \<open>T a[3][3]\<close> array as a list of rows.\<close>

definition mat_get :: "'a list list \<Rightarrow> nat \<Rightarrow> nat \<Rightarrow> 'a" where
  "mat_get a i j = a ! i ! j"

definition mat_set :: "'a list list \<Rightarrow> nat \<Rightarrow> nat \<Rightarrow> 'a \<Rightarrow> 'a list list" where
  "mat_set a i j v = a[i := (a ! i)[j := v]]"

subsection \<open>The platform\<close>

text \<open>
  \<open>tokenize src seps\<close> is \<open>stk::io::util::tokenize(src, stk::io::util::recognize(seps))\<close>;
  \<open>strtol s\<close> is \<open>std::strtol(s, NULL, 10)\<close>, a \<open>long\<close>, as the unsigned value that it
  is converted to where it is stored; \<open>strtod s\<close> is \<open>std::strtod(s, NULL)\<close>; \<open>dbl n\<close> is the
  \<open>double\<close> of value \<open>n\<close> (a \<open>static_cast<double>\<close>, or a literal such as \<open>180.0\<close>).
\<close>

record 'd platform =
  tokenize :: "string \<Rightarrow> string \<Rightarrow> string list"
  strtol :: "string \<Rightarrow> nat"
  strtod :: "string \<Rightarrow> 'd"
  dbl :: "nat \<Rightarrow> 'd"
  d_add :: "'d \<Rightarrow> 'd \<Rightarrow> 'd"
  d_sub :: "'d \<Rightarrow> 'd \<Rightarrow> 'd"
  d_mul :: "'d \<Rightarrow> 'd \<Rightarrow> 'd"
  d_div :: "'d \<Rightarrow> 'd \<Rightarrow> 'd"
  d_neg :: "'d \<Rightarrow> 'd"
  d_cos :: "'d \<Rightarrow> 'd"
  d_sin :: "'d \<Rightarrow> 'd"
  d_atan2 :: "'d \<Rightarrow> 'd \<Rightarrow> 'd"

subsection \<open>The state of a mesh generator\<close>

datatype ShellLocation = MX | PX | MY | PY | MZ | PZ

record 'd mesh =
  shellBlocks :: "ShellLocation list"
  rotmat :: "'d list list"
  numX :: nat
  numY :: nat
  numZ :: nat
  myNumZ :: nat
  myStartZ :: nat
  processorCount :: nat
  myProcessor :: nat
  offX :: 'd
  offY :: 'd
  offZ :: 'd
  sclX :: 'd
  sclY :: 'd
  sclZ :: 'd
  doRotation :: bool
  faceNodes :: "nat list list"

datatype 'd message =
    ShellLocationError char
  | OptionError string
  | AxisError string
  | HelpText
  | ParametersText nat nat nat
  | RotationText "'d list list"

subsection \<open>Construction and the partition of the Z intervals\<close>

text \<open>
  \<open>initialize\<close>: the slab of this rank, the identity as rotation matrix, and the table of
  the nodes of the six faces of a hexahedron. Both arrays are written in full, whatever
  they held.
\<close>

definition initialize :: "'d platform \<Rightarrow> 'd mesh \<Rightarrow> 'd mesh option" where
  "initialize pf m0 = do {
     assert (processorCount m0 \<le> numZ m0);
     let m = (if 1 < processorCount m0 then
               let n = numZ m0 div processorCount m0;
                   n = (if myProcessor m0 < numZ m0 mod processorCount m0 then n + 1 else n);
                   extra = numZ m0 mod processorCount m0;
                   extra = (if myProcessor m0 < extra then myProcessor m0 else extra);
                   per_proc = numZ m0 div processorCount m0
               in m0\<lparr>myNumZ := n, myStartZ := myProcessor m0 * per_proc + extra\<rparr>
             else m0\<lparr>myNumZ := numZ m0\<rparr>);
     Some (m\<lparr>rotmat := [[dbl pf 1, dbl pf 0, dbl pf 0],
                         [dbl pf 0, dbl pf 1, dbl pf 0],
                         [dbl pf 0, dbl pf 0, dbl pf 1]],
              faceNodes := [[1, 2, 6, 5], [2, 3, 7, 6], [3, 4, 8, 7],
                            [4, 1, 5, 8], [4, 3, 2, 1], [5, 6, 7, 8]]\<rparr>)
   }"

text \<open>The member initialisers of both constructors, before \<open>initialize\<close> runs.\<close>

definition members :: "'d platform \<Rightarrow> nat \<Rightarrow> nat \<Rightarrow> nat \<Rightarrow> nat \<Rightarrow> nat \<Rightarrow> nat \<Rightarrow> 'd mesh" where
  "members pf num_x num_y num_z my_num_z proc_count my_proc =
     \<lparr>shellBlocks = [], rotmat = [], numX = num_x, numY = num_y, numZ = num_z,
      myNumZ = my_num_z, myStartZ = 0, processorCount = proc_count, myProcessor = my_proc,
      offX = dbl pf 0, offY = dbl pf 0, offZ = dbl pf 0,
      sclX = dbl pf 1, sclY = dbl pf 1, sclZ = dbl pf 1,
      doRotation = False, faceNodes = []\<rparr>"

text \<open>\<open>GeneratedMesh(int num_x, int num_y, int num_z, int proc_count, int my_proc)\<close>\<close>

definition GeneratedMesh :: "'d platform \<Rightarrow> nat \<Rightarrow> nat \<Rightarrow> nat \<Rightarrow> nat \<Rightarrow> nat \<Rightarrow> 'd mesh option" where
  "GeneratedMesh pf num_x num_y num_z proc_count my_proc =
     initialize pf (members pf num_x num_y num_z num_z proc_count my_proc)"

text \<open>
  \<open>add_shell_block\<close> appends the block; the number it returns is the length of
  \<open>shellBlocks\<close> in the new state.
\<close>

definition add_shell_block :: "ShellLocation \<Rightarrow> 'd mesh \<Rightarrow> 'd mesh" where
  "add_shell_block loc m = m\<lparr>shellBlocks := shellBlocks m @ [loc]\<rparr>"

definition set_bbox :: "'d platform \<Rightarrow> 'd \<Rightarrow> 'd \<Rightarrow> 'd \<Rightarrow> 'd \<Rightarrow> 'd \<Rightarrow> 'd \<Rightarrow> 'd mesh \<Rightarrow> 'd mesh" where
  "set_bbox pf xmin ymin zmin xmax ymax zmax m =
     (let x_range = d_sub pf xmax xmin;
          y_range = d_sub pf ymax ymin;
          z_range = d_sub pf zmax zmin
      in m\<lparr>sclX := d_div pf x_range (dbl pf (numX m)),
            sclY := d_div pf y_range (dbl pf (numY m)),
            sclZ := d_div pf z_range (dbl pf (numZ m)),
            offX := xmin, offY := ymin, offZ := zmin\<rparr>)"

definition set_scale :: "'d \<Rightarrow> 'd \<Rightarrow> 'd \<Rightarrow> 'd mesh \<Rightarrow> 'd mesh" where
  "set_scale scl_x scl_y scl_z m = m\<lparr>sclX := scl_x, sclY := scl_y, sclZ := scl_z\<rparr>"

definition set_offset :: "'d \<Rightarrow> 'd \<Rightarrow> 'd \<Rightarrow> 'd mesh \<Rightarrow> 'd mesh" where
  "set_offset off_x off_y off_z m = m\<lparr>offX := off_x, offY := off_y, offZ := off_z\<rparr>"

subsection \<open>Rotation\<close>

text \<open>
  \<open>set_rotation\<close> sets \<open>doRotation\<close> first, then selects the index triple of the axis. For
  an axis it does not know it writes a message and returns. Otherwise the rotation
  \<open>by\<close> about the axis is written entry by entry (the nine assignments cover the array)
  and \<open>rotmat\<close> becomes the product \<open>rotmat * by\<close>.
\<close>

definition axis_indices :: "string \<Rightarrow> (nat \<times> nat \<times> nat) option" where
  "axis_indices axis =
     (if axis = ''x'' \<or> axis = ''X'' then Some (1, 2, 0)
      else if axis = ''y'' \<or> axis = ''Y'' then Some (2, 0, 1)
      else if axis = ''z'' \<or> axis = ''Z'' then Some (0, 1, 2)
      else None)"

definition set_rotation :: "'d platform \<Rightarrow> string \<Rightarrow> 'd \<Rightarrow> 'd mesh \<Rightarrow> 'd mesh \<times> 'd message list" where
  "set_rotation pf axis angle_degrees m0 =
     (let degang = d_div pf (d_atan2 pf (dbl pf 0) (d_neg pf (dbl pf 1))) (dbl pf 180);
          m = m0\<lparr>doRotation := True\<rparr>
      in case axis_indices axis of
           None \<Rightarrow> (m, [AxisError axis])
         | Some (n1, n2, n3) \<Rightarrow>
             let ang = d_mul pf angle_degrees degang;
                 cosang = d_cos pf ang;
                 sinang = d_sin pf ang;
                 by' = replicate 3 (replicate 3 (dbl pf 0));
                 by' = mat_set by' n1 n1 cosang;
                 by' = mat_set by' n2 n1 (d_neg pf sinang);
                 by' = mat_set by' n1 n3 (dbl pf 0);
                 by' = mat_set by' n1 n2 sinang;
                 by' = mat_set by' n2 n2 cosang;
                 by' = mat_set by' n2 n3 (dbl pf 0);
                 by' = mat_set by' n3 n1 (dbl pf 0);
                 by' = mat_set by' n3 n2 (dbl pf 0);
                 by' = mat_set by' n3 n3 (dbl pf 1);
                 r = mat_get (rotmat m);
                 b = mat_get by';
                 res = map (\<lambda>i. map (\<lambda>j.
                         d_add pf (d_add pf (d_mul pf (r i 0) (b 0 j)) (d_mul pf (r i 1) (b 1 j)))
                                  (d_mul pf (r i 2) (b 2 j))) [0..<3]) [0..<3]
             in (m\<lparr>rotmat := res\<rparr>, []))"

subsection \<open>Counts\<close>

definition node_count :: "'d mesh \<Rightarrow> nat" where
  "node_count m = size_t ((numX m + 1) * (numY m + 1) * (numZ m + 1))"

text \<open>
  \<open>node_count_proc\<close> is the number of nodes of the slab. The generator stores three
  coordinates for each of them, and a count that the reduction changes is the count of
  a slab that no vector holds; \<open>node_count_proc\<close> is the count itself. Where the source
  uses the value for more than the size of the coordinate vectors, the reduction is
  written at the call.
\<close>

definition node_count_proc :: "'d mesh \<Rightarrow> nat" where
  "node_count_proc m = (numX m + 1) * (numY m + 1) * (myNumZ m + 1)"

definition block_count :: "'d mesh \<Rightarrow> nat" where
  "block_count m = length (shellBlocks m) + 1"

fun shell_element_count :: "'d mesh \<Rightarrow> ShellLocation \<Rightarrow> nat" where
  "shell_element_count m MX = size_t (numY m * numZ m)"
| "shell_element_count m PX = size_t (numY m * numZ m)"
| "shell_element_count m MY = size_t (numX m * numZ m)"
| "shell_element_count m PY = size_t (numX m * numZ m)"
| "shell_element_count m MZ = size_t (numX m * numY m)"
| "shell_element_count m PZ = size_t (numX m * numY m)"

text \<open>
  \<open>myProcessor == processorCount - 1\<close> is computed on unsigned values; on the naturals it
  is \<open>myProcessor + 1 = processorCount\<close>, which also is false when \<open>processorCount\<close> is 0.
\<close>

fun shell_element_count_proc :: "'d mesh \<Rightarrow> ShellLocation \<Rightarrow> nat" where
  "shell_element_count_proc m MX = size_t (numY m * myNumZ m)"
| "shell_element_count_proc m PX = size_t (numY m * myNumZ m)"
| "shell_element_count_proc m MY = size_t (numX m * myNumZ m)"
| "shell_element_count_proc m PY = size_t (numX m * myNumZ m)"
| "shell_element_count_proc m MZ = (if myProcessor m = 0 then size_t (numX m * numY m) else 0)"
| "shell_element_count_proc m PZ =
     (if myProcessor m + 1 = processorCount m then size_t (numX m * numY m) else 0)"

text \<open>
  \<open>shellBlocks[block_number-2]\<close>: for \<open>block_number < 2\<close> the unsigned index wraps around
  and lies outside the vector.
\<close>

definition shell_block :: "'d mesh \<Rightarrow> nat \<Rightarrow> ShellLocation option" where
  "shell_block m block_number =
     (if block_number < 2 then None else vec_get (shellBlocks m) (block_number - 2))"

text \<open>\<open>element_count(size_t block_number)\<close>\<close>

definition element_count_block :: "'d mesh \<Rightarrow> nat \<Rightarrow> nat option" where
  "element_count_block m block_number = do {
     assert (block_number \<le> block_count m);
     if block_number = 1 then Some (size_t (numX m * numY m * numZ m))
     else do {
       loc \<leftarrow> shell_block m block_number;
       Some (shell_element_count m loc)
     }
   }"

text \<open>\<open>element_count()\<close>\<close>

definition element_count :: "'d mesh \<Rightarrow> nat option" where
  "element_count m = do {
     count \<leftarrow> element_count_block m 1;
     for_loop [0 ..< length (shellBlocks m)] (\<lambda>i count. do {
         c \<leftarrow> element_count_block m (i + 2);
         Some (size_t (count + c))
       }) count
   }"

text \<open>\<open>element_count_proc(size_t block_number)\<close>\<close>

definition element_count_proc_block :: "'d mesh \<Rightarrow> nat \<Rightarrow> nat option" where
  "element_count_proc_block m block_number = do {
     assert (block_number \<le> block_count m);
     if block_number = 1 then Some (size_t (numX m * numY m * myNumZ m))
     else do {
       loc \<leftarrow> shell_block m block_number;
       Some (shell_element_count_proc m loc)
     }
   }"

text \<open>\<open>element_count_proc()\<close>\<close>

definition element_count_proc :: "'d mesh \<Rightarrow> nat option" where
  "element_count_proc m =
     for_loop [0 ..< block_count m] (\<lambda>i count. do {
         c \<leftarrow> element_count_proc_block m (i + 1);
         Some (size_t (count + c))
       }) 0"

definition topology_type :: "'d mesh \<Rightarrow> nat \<Rightarrow> (string \<times> int) option" where
  "topology_type m block_number = do {
     assert (block_number \<le> block_count m \<and> 0 < block_number);
     if block_number = 1 then Some (''hex8'', 8) else Some (''shell4'', 4)
   }"

subsection \<open>Writing through a running index\<close>

text \<open>\<open>put a\<close> is \<open>v[k++] = a\<close>; \<open>puts [a, b, c]\<close> is three such statements in a row.\<close>

definition put :: "'a \<Rightarrow> 'a list \<times> nat \<Rightarrow> ('a list \<times> nat) option" where
  "put a = (\<lambda>(v, k). do { v \<leftarrow> vec_set v k a; Some (v, k + 1) })"

primrec puts :: "'a list \<Rightarrow> 'a list \<times> nat \<Rightarrow> ('a list \<times> nat) option" where
  "puts [] s = Some s"
| "puts (a # as) s = Option.bind (put a s) (puts as)"

subsection \<open>Global identifiers\<close>

definition node_map :: "'d mesh \<Rightarrow> int list \<Rightarrow> int list option" where
  "node_map m map0 = do {
     let count = size_t (node_count_proc m);
     let mp = resize count 0 map0;
     let offset = size_t (myStartZ m * (numX m + 1) * (numY m + 1));
     for_loop [0 ..< count]
       (\<lambda>i mp. vec_set mp i (static_cast_int (size_t (offset + i + 1)))) mp
   }"

text \<open>
  The vectors \<open>map\<close> and \<open>proc\<close> are filled through the common index \<open>j\<close>.
\<close>

definition node_communication_map ::
  "'d mesh \<Rightarrow> int list \<Rightarrow> int list \<Rightarrow> (int list \<times> int list) option" where
  "node_communication_map m map0 proc0 = do {
     let count = size_t ((numX m + 1) * (numY m + 1));
     let slab = count;
     let count = (if myProcessor m \<noteq> 0 \<and> myProcessor m + 1 \<noteq> processorCount m
                  then size_t (count * 2) else count);
     let mp = resize count 0 map0;
     let pr = resize count 0 proc0;
     s \<leftarrow> (if myProcessor m \<noteq> 0 then
            let offset = size_t (myStartZ m * (numX m + 1) * (numY m + 1)) in
            for_loop [0 ..< slab] (\<lambda>i (mp, pr, j). do {
                mp \<leftarrow> vec_set mp j (static_cast_int (size_t (offset + i + 1)));
                pr \<leftarrow> vec_set pr j (static_cast_int (size_t_minus (myProcessor m) 1));
                Some (mp, pr, j + 1)
              }) (mp, pr, 0)
          else Some (mp, pr, 0));
     (mp, pr, j) \<leftarrow> (if myProcessor m + 1 \<noteq> processorCount m then
            let offset = size_t ((myStartZ m + myNumZ m) * (numX m + 1) * (numY m + 1)) in
            for_loop [0 ..< slab] (\<lambda>i (mp, pr, j). do {
                mp \<leftarrow> vec_set mp j (static_cast_int (size_t (offset + i + 1)));
                pr \<leftarrow> vec_set pr j (static_cast_int (size_t (myProcessor m + 1)));
                Some (mp, pr, j + 1)
              }) s
          else Some s);
     Some (mp, pr)
   }"

definition shell_offset :: "'d mesh \<Rightarrow> ShellLocation \<Rightarrow> nat" where
  "shell_offset m loc =
     (case loc of
        MX \<Rightarrow> size_t (myStartZ m * numY m) | PX \<Rightarrow> size_t (myStartZ m * numY m)
      | MY \<Rightarrow> size_t (myStartZ m * numX m) | PY \<Rightarrow> size_t (myStartZ m * numX m)
      | MZ \<Rightarrow> 0 | PZ \<Rightarrow> 0)"

text \<open>\<open>element_map(size_t block_number, std::vector<int> &map)\<close>\<close>

definition element_map_block :: "'d mesh \<Rightarrow> nat \<Rightarrow> int list \<Rightarrow> int list option" where
  "element_map_block m block_number map0 = do {
     assert (block_number \<le> block_count m \<and> 0 < block_number);
     count \<leftarrow> element_count_proc_block m block_number;
     let mp = resize count 0 map0;
     if block_number = 1 then do {
       count \<leftarrow> element_count_proc_block m 1;
       let offset = size_t (myStartZ m * numX m * numY m);
       for_loop [0 ..< count]
         (\<lambda>i mp. vec_set mp i (static_cast_int (size_t (offset + i + 1)))) mp
     } else do {
       start \<leftarrow> element_count_block m 1;
       (mp, start) \<leftarrow> for_loop [0 ..< length (shellBlocks m)] (\<lambda>ib (mp, start). do {
           count \<leftarrow> element_count_proc_block m (ib + 2);
           if block_number = ib + 2 then do {
             loc \<leftarrow> vec_get (shellBlocks m) ib;
             let offset = shell_offset m loc;
             mp \<leftarrow> for_loop [0 ..< count]
                    (\<lambda>i mp. vec_set mp i (static_cast_int (size_t (start + offset + i + 1)))) mp;
             Some (mp, start)
           } else do {
             c \<leftarrow> element_count_block m (ib + 2);
             Some (mp, size_t (start + c))
           }
         }) (mp, start);
       Some mp
     }
   }"

text \<open>\<open>element_map(std::vector<int> &map)\<close>\<close>

definition element_map :: "'d mesh \<Rightarrow> int list \<Rightarrow> int list option" where
  "element_map m map0 = do {
     count \<leftarrow> element_count_proc m;
     let mp = resize count 0 map0;
     count \<leftarrow> element_count_proc_block m 1;
     let offset = size_t (myStartZ m * numX m * numY m);
     s \<leftarrow> for_loop [0 ..< count]
           (\<lambda>i. put (static_cast_int (size_t (offset + i + 1)))) (mp, 0);
     start \<leftarrow> element_count_block m 1;
     (s, start) \<leftarrow> for_loop [0 ..< length (shellBlocks m)] (\<lambda>ib (s, start). do {
         count \<leftarrow> element_count_proc_block m (ib + 2);
         loc \<leftarrow> vec_get (shellBlocks m) ib;
         let offset = shell_offset m loc;
         s \<leftarrow> for_loop [0 ..< count]
               (\<lambda>i. put (static_cast_int (size_t (start + offset + i + 1)))) s;
         c \<leftarrow> element_count_block m (ib + 2);
         Some (s, size_t (start + c))
       }) (s, start);
     Some (fst s)
   }"

text \<open>
  \<open>element_surface_map\<close>: pairs of an element identifier and a local face. The vector is
  resized to twice the count of this processor; the loops of the four side faces run
  over all \<open>numZ\<close> layers.
\<close>

definition surface_entry :: "int \<Rightarrow> int \<Rightarrow> int list \<times> nat \<Rightarrow> (int list \<times> nat) option" where
  "surface_entry elem face = (\<lambda>(mp, index). do {
     mp \<leftarrow> vec_set mp (2 * index) elem;
     mp \<leftarrow> vec_set mp (2 * index + 1) face;
     Some (mp, index + 1)
   })"

definition surface_entry_at :: "nat \<Rightarrow> int \<Rightarrow> int \<Rightarrow> int list \<Rightarrow> int list option" where
  "surface_entry_at index elem face mp = do {
     mp \<leftarrow> vec_set mp index elem;
     vec_set mp (index + 1) face
   }"

definition element_surface_map :: "'d mesh \<Rightarrow> ShellLocation \<Rightarrow> int list \<Rightarrow> int list option" where
  "element_surface_map m loc map0 = do {
     let count = shell_element_count_proc m loc;
     let mp = resize (size_t (2 * count)) 0 map0;
     case loc of
       MX \<Rightarrow> do {
         (mp, index) \<leftarrow> for_loop [0 ..< numZ m] (\<lambda>k. for_loop [0 ..< numY m] (\<lambda>j.
             let ielem = size_t (k * numX m * numY m + j * numX m)
             in surface_entry (static_cast_int (size_t (ielem + 1))) 3)) (mp, 0);
         Some mp }
     | PX \<Rightarrow> do {
         let offset = size_t_minus (numX m) 1;
         (mp, index) \<leftarrow> for_loop [0 ..< numZ m] (\<lambda>k. for_loop [0 ..< numY m] (\<lambda>j.
             let ielem = size_t (offset + k * numX m * numY m + j * numX m + 1)
             in surface_entry (static_cast_int ielem) 1)) (mp, 0);
         Some mp }
     | MY \<Rightarrow> do {
         (mp, index) \<leftarrow> for_loop [0 ..< numZ m] (\<lambda>k. for_loop [0 ..< numX m] (\<lambda>i.
             let ielem = size_t (k * numX m * numY m + i + 1)
             in surface_entry (static_cast_int ielem) 0)) (mp, 0);
         Some mp }
     | PY \<Rightarrow> do {
         let offset = size_t (size_t_minus (numY m) 1 * numX m);
         (mp, index) \<leftarrow> for_loop [0 ..< numZ m] (\<lambda>k. for_loop [0 ..< numX m] (\<lambda>i.
             let ielem = size_t (offset + k * numX m * numY m + i)
             in surface_entry (static_cast_int (size_t (ielem + 1))) 2)) (mp, 0);
         Some mp }
     | MZ \<Rightarrow>
         for_loop [0 ..< numY m] (\<lambda>j. for_loop [0 ..< numX m] (\<lambda>i.
             let ielem = size_t (j * numX m + i);
                 index = size_t (2 * ielem)
             in surface_entry_at index (static_cast_int (size_t (ielem + 1))) 4)) mp
     | PZ \<Rightarrow> do {
         let offset = size_t (size_t_minus (numZ m) 1 * numX m * numY m);
         for_loop [0 ..< numY m] (\<lambda>j. for_loop [0 ..< numX m] (\<lambda>i.
             let ielem = size_t (offset + j * numX m + i);
                 index = size_t (2 * size_t_minus ielem offset)
             in surface_entry_at index (static_cast_int (size_t (ielem + 1))) 5)) mp }
   }"

subsection \<open>Coordinates\<close>

text \<open>Column \<open>c\<close> of the row vector \<open>(xn, yn, zn)\<close> times \<open>rotmat\<close>.\<close>

definition rotated :: "'d platform \<Rightarrow> 'd list list \<Rightarrow> nat \<Rightarrow> 'd \<Rightarrow> 'd \<Rightarrow> 'd \<Rightarrow> 'd" where
  "rotated pf r c xn yn zn =
     d_add pf (d_add pf (d_mul pf xn (mat_get r 0 c)) (d_mul pf yn (mat_get r 1 c)))
              (d_mul pf zn (mat_get r 2 c))"

text \<open>\<open>coordinates(std::vector<double> &coord)\<close>\<close>

definition coordinates :: "'d platform \<Rightarrow> 'd mesh \<Rightarrow> 'd list \<Rightarrow> 'd list option" where
  "coordinates pf mesh coord0 = do {
     let count = node_count_proc mesh;
     let coord = resize (count * 3) (dbl pf 0) coord0;
     (coord, k) \<leftarrow>
       for_loop [myStartZ mesh ..< myStartZ mesh + myNumZ mesh + 1] (\<lambda>m.
         for_loop [0 ..< numY mesh + 1] (\<lambda>i.
           for_loop [0 ..< numX mesh + 1] (\<lambda>j.
             puts [d_add pf (d_mul pf (sclX mesh) (dbl pf j)) (offX mesh),
                   d_add pf (d_mul pf (sclY mesh) (dbl pf i)) (offY mesh),
                   d_add pf (d_mul pf (sclZ mesh) (dbl pf m)) (offZ mesh)]))) (coord, 0);
     if doRotation mesh then
       for_loop (stride 0 (count * 3) 3) (\<lambda>i coord. do {
           xn \<leftarrow> vec_get coord (i + 0);
           yn \<leftarrow> vec_get coord (i + 1);
           zn \<leftarrow> vec_get coord (i + 2);
           coord \<leftarrow> vec_set coord (i + 0) (rotated pf (rotmat mesh) 0 xn yn zn);
           coord \<leftarrow> vec_set coord (i + 1) (rotated pf (rotmat mesh) 1 xn yn zn);
           vec_set coord (i + 2) (rotated pf (rotmat mesh) 2 xn yn zn)
         }) coord
     else Some coord
   }"

text \<open>\<open>coordinates(std::vector<double> &x, std::vector<double> &y, std::vector<double> &z)\<close>\<close>

definition coordinates_xyz ::
  "'d platform \<Rightarrow> 'd mesh \<Rightarrow> 'd list \<times> 'd list \<times> 'd list \<Rightarrow> ('d list \<times> 'd list \<times> 'd list) option" where
  "coordinates_xyz pf mesh = (\<lambda>(x0, y0, z0). do {
     let count = node_count_proc mesh;
     let x = resize count (dbl pf 0) x0;
     let y = resize count (dbl pf 0) y0;
     let z = resize count (dbl pf 0) z0;
     (x, y, z, k) \<leftarrow>
       for_loop [myStartZ mesh ..< myStartZ mesh + myNumZ mesh + 1] (\<lambda>m.
         for_loop [0 ..< numY mesh + 1] (\<lambda>i.
           for_loop [0 ..< numX mesh + 1] (\<lambda>j (x, y, z, k). do {
               x \<leftarrow> vec_set x k (d_add pf (d_mul pf (sclX mesh) (dbl pf j)) (offX mesh));
               y \<leftarrow> vec_set y k (d_add pf (d_mul pf (sclY mesh) (dbl pf i)) (offY mesh));
               z \<leftarrow> vec_set z k (d_add pf (d_mul pf (sclZ mesh) (dbl pf m)) (offZ mesh));
               Some (x, y, z, k + 1)
             }))) (x, y, z, 0);
     if doRotation mesh then
       for_loop [0 ..< count] (\<lambda>i (x, y, z). do {
           xn \<leftarrow> vec_get x i;
           yn \<leftarrow> vec_get y i;
           zn \<leftarrow> vec_get z i;
           x \<leftarrow> vec_set x i (rotated pf (rotmat mesh) 0 xn yn zn);
           y \<leftarrow> vec_set y i (rotated pf (rotmat mesh) 1 xn yn zn);
           z \<leftarrow> vec_set z i (rotated pf (rotmat mesh) 2 xn yn zn);
           Some (x, y, z)
         }) (x, y, z)
     else Some (x, y, z)
   })"

subsection \<open>Connectivity\<close>

text \<open>
  The hexahedra of the slab, eight nodes each, numbered locally; or the quadrilaterals of
  a shell block, four nodes each. The vector of a shell block is resized with the global
  count of the block.
\<close>

definition hex_layer ::
  "'d mesh \<Rightarrow> nat \<Rightarrow> nat \<Rightarrow> int list \<times> nat \<Rightarrow> (int list \<times> nat) option" where
  "hex_layer mesh xp1yp1 m = (\<lambda>s. do {
     (s, k) \<leftarrow> for_loop [0 ..< numY mesh] (\<lambda>i. for_loop [0 ..< numX mesh] (\<lambda>j (s, k).
         let base = size_t_minus ((m * xp1yp1) + k + i + 1) (myStartZ mesh * xp1yp1) in do {
           s \<leftarrow> puts [static_cast_int base,
                       static_cast_int (size_t (base + 1)),
                       static_cast_int (size_t (base + numX mesh + 2)),
                       static_cast_int (size_t (base + numX mesh + 1)),
                       static_cast_int (size_t (xp1yp1 + base)),
                       static_cast_int (size_t (xp1yp1 + base + 1)),
                       static_cast_int (size_t (xp1yp1 + base + numX mesh + 2)),
                       static_cast_int (size_t (xp1yp1 + base + numX mesh + 1))] s;
           Some (s, k + 1)
         })) (s, 0);
     Some s
   })"

definition shell_connectivity ::
  "'d mesh \<Rightarrow> nat \<Rightarrow> ShellLocation \<Rightarrow> int list \<times> nat \<Rightarrow> (int list \<times> nat) option" where
  "shell_connectivity mesh xp1yp1 loc s =
     (case loc of
        MX \<Rightarrow>
          for_loop [0 ..< myNumZ mesh] (\<lambda>i.
            let layer_off = size_t (i * xp1yp1) in
            for_loop [0 ..< numY mesh] (\<lambda>j.
              let base = size_t (layer_off + j * (numX mesh + 1) + 1) in
              puts [static_cast_int base,
                    static_cast_int (size_t (base + xp1yp1)),
                    static_cast_int (size_t (base + xp1yp1 + (numX mesh + 1))),
                    static_cast_int (size_t (base + (numX mesh + 1)))])) s
      | PX \<Rightarrow>
          for_loop [0 ..< myNumZ mesh] (\<lambda>i.
            let layer_off = size_t (i * xp1yp1) in
            for_loop [0 ..< numY mesh] (\<lambda>j.
              let base = size_t (layer_off + j * (numX mesh + 1) + numX mesh + 1) in
              puts [static_cast_int base,
                    static_cast_int (size_t (base + (numX mesh + 1))),
                    static_cast_int (size_t (base + xp1yp1 + (numX mesh + 1))),
                    static_cast_int (size_t (base + xp1yp1))])) s
      | MY \<Rightarrow>
          for_loop [0 ..< myNumZ mesh] (\<lambda>i.
            let layer_off = size_t (i * xp1yp1) in
            for_loop [0 ..< numX mesh] (\<lambda>j.
              let base = size_t (layer_off + j + 1) in
              puts [static_cast_int base,
                    static_cast_int (size_t (base + 1)),
                    static_cast_int (size_t (base + xp1yp1 + 1)),
                    static_cast_int (size_t (base + xp1yp1))])) s
      | PY \<Rightarrow>
          for_loop [0 ..< myNumZ mesh] (\<lambda>i.
            let layer_off = size_t (i * xp1yp1) in
            for_loop [0 ..< numX mesh] (\<lambda>j.
              let base = size_t (layer_off + (numX mesh + 1) * numY mesh + j + 1) in
              puts [static_cast_int base,
                    static_cast_int (size_t (base + xp1yp1)),
                    static_cast_int (size_t (base + xp1yp1 + 1)),
                    static_cast_int (size_t (base + 1))])) s
      | MZ \<Rightarrow>
          if myProcessor mesh = 0 then do {
            (s, k) \<leftarrow> for_loop [0 ..< numY mesh] (\<lambda>i. for_loop [0 ..< numX mesh] (\<lambda>j (s, k).
                let base = size_t (i + k + 1) in do {
                  s \<leftarrow> puts [static_cast_int base,
                              static_cast_int (size_t (base + numX mesh + 1)),
                              static_cast_int (size_t (base + numX mesh + 2)),
                              static_cast_int (size_t (base + 1))] s;
                  Some (s, k + 1)
                })) (s, 0);
            Some s
          } else Some s
      | PZ \<Rightarrow>
          if myProcessor mesh + 1 = processorCount mesh then do {
            (s, k) \<leftarrow> for_loop [0 ..< numY mesh] (\<lambda>i. for_loop [0 ..< numX mesh] (\<lambda>j (s, k).
                let base = size_t (xp1yp1 * size_t_minus (numZ mesh) (myStartZ mesh) + k + i + 1)
                in do {
                  s \<leftarrow> puts [static_cast_int base,
                              static_cast_int (size_t (base + 1)),
                              static_cast_int (size_t (base + numX mesh + 2)),
                              static_cast_int (size_t (base + numX mesh + 1))] s;
                  Some (s, k + 1)
                })) (s, 0);
            Some s
          } else Some s)"

definition connectivity :: "'d mesh \<Rightarrow> nat \<Rightarrow> int list \<Rightarrow> int list option" where
  "connectivity mesh block_number connect0 = do {
     assert (block_number \<le> block_count mesh);
     let xp1yp1 = size_t ((numX mesh + 1) * (numY mesh + 1));
     if block_number = 1 then do {
       c \<leftarrow> element_count_proc_block mesh block_number;
       let connect = resize (size_t (c * 8)) 0 connect0;
       (connect, cnt) \<leftarrow>
         for_loop [myStartZ mesh ..< myNumZ mesh + myStartZ mesh] (hex_layer mesh xp1yp1)
           (connect, 0);
       Some connect
     } else do {
       loc \<leftarrow> shell_block mesh block_number;
       c \<leftarrow> element_count_block mesh block_number;
       let connect = resize (size_t (c * 4)) 0 connect0;
       (connect, cnt) \<leftarrow> shell_connectivity mesh xp1yp1 loc (connect, 0);
       Some connect
     }
   }"

subsection \<open>The parameter string\<close>

definition show_parameters :: "'d mesh \<Rightarrow> 'd message list option" where
  "show_parameters m =
     (if myProcessor m = 0 then do {
        elems \<leftarrow> element_count m;
        Some (ParametersText (node_count m) elems (block_count m)
              # (if doRotation m then [RotationText (rotmat m)] else []))
      } else Some [])"

definition shell_location :: "char \<Rightarrow> ShellLocation option" where
  "shell_location c =
     (if c = CHR ''x'' then Some MX else if c = CHR ''X'' then Some PX
      else if c = CHR ''y'' then Some MY else if c = CHR ''Y'' then Some PY
      else if c = CHR ''z'' then Some MZ else if c = CHR ''Z'' then Some PZ
      else None)"

text \<open>
  The \<open>zdecomp\<close> option: \<open>numZ\<close> becomes the sum of the listed intervals, \<open>myNumZ\<close> the
  interval of this rank and \<open>myStartZ\<close> the sum of the intervals of the ranks before it.
  The intervals are stored in a \<open>std::vector<size_t>\<close> and added as \<open>size_t\<close>.
\<close>

definition zdecomp :: "'d platform \<Rightarrow> string list \<Rightarrow> 'd mesh \<Rightarrow> 'd mesh option" where
  "zdecomp pf tokens m = do {
     assert (length tokens = processorCount m);
     (Zs, num_z) \<leftarrow> for_loop [0 ..< processorCount m] (\<lambda>j (Zs, num_z). do {
         t \<leftarrow> vec_get tokens j;
         let Zs = Zs @ [size_t (strtol pf t)];
         z \<leftarrow> vec_get Zs j;
         Some (Zs, size_t (num_z + z))
       }) ([], 0);
     my_num_z \<leftarrow> vec_get Zs (myProcessor m);
     my_start_z \<leftarrow> for_loop [0 ..< myProcessor m] (\<lambda>j my_start_z. do {
         z \<leftarrow> vec_get Zs j;
         Some (size_t (my_start_z + z))
       }) 0;
     Some (m\<lparr>numZ := num_z, myNumZ := my_num_z, myStartZ := my_start_z\<rparr>)
   }"

text \<open>
  One pass of the loop of the \<open>rotate\<close> option: the axis \<open>tokens[ir++]\<close>, the angle
  \<open>tokens[ir++]\<close> and the call of \<open>set_rotation\<close>.
\<close>

definition rotate_pair ::
  "'d platform \<Rightarrow> string list \<Rightarrow> nat \<Rightarrow> 'd mesh \<times> 'd message list
     \<Rightarrow> ('d mesh \<times> 'd message list) option" where
  "rotate_pair pf tokens ir = (\<lambda>(m, out). do {
     axis \<leftarrow> vec_get tokens ir;
     angle \<leftarrow> vec_get tokens (ir + 1);
     let (m, warning) = set_rotation pf axis (strtod pf angle) m;
     Some (m, out @ warning)
   })"

text \<open>One pass of the loop of \<open>parse_options\<close>, on the group \<open>groups[i]\<close>.\<close>

definition parse_option ::
  "'d platform \<Rightarrow> string \<Rightarrow> 'd mesh \<times> 'd message list \<Rightarrow> ('d mesh \<times> 'd message list) option" where
  "parse_option pf grp = (\<lambda>(m, out). do {
     let option = tokenize pf grp '':'';
     opt \<leftarrow> vec_get option 0;
     if opt = ''shell'' then do {
       arg \<leftarrow> vec_get option 1;
       Some (fold (\<lambda>c (m, out).
               case shell_location c of
                 Some loc \<Rightarrow> (add_shell_block loc m, out)
               | None \<Rightarrow> (m, out @ [ShellLocationError c])) arg (m, out))
     } else if opt = ''scale'' then do {
       arg \<leftarrow> vec_get option 1;
       let tokens = tokenize pf arg '','';
       assert (length tokens = 3);
       Some (m\<lparr>sclX := strtod pf (tokens ! 0), sclY := strtod pf (tokens ! 1),
                sclZ := strtod pf (tokens ! 2)\<rparr>, out)
     } else if opt = ''offset'' then do {
       arg \<leftarrow> vec_get option 1;
       let tokens = tokenize pf arg '','';
       assert (length tokens = 3);
       Some (m\<lparr>offX := strtod pf (tokens ! 0), offY := strtod pf (tokens ! 1),
                offZ := strtod pf (tokens ! 2)\<rparr>, out)
     } else if opt = ''zdecomp'' then do {
       arg \<leftarrow> vec_get option 1;
       m \<leftarrow> zdecomp pf (tokenize pf arg '','') m;
       Some (m, out)
     } else if opt = ''bbox'' then do {
       arg \<leftarrow> vec_get option 1;
       let tokens = tokenize pf arg '','';
       assert (length tokens = 6);
       Some (set_bbox pf (strtod pf (tokens ! 0)) (strtod pf (tokens ! 1))
               (strtod pf (tokens ! 2)) (strtod pf (tokens ! 3))
               (strtod pf (tokens ! 4)) (strtod pf (tokens ! 5)) m, out)
     } else if opt = ''rotate'' then do {
       arg \<leftarrow> vec_get option 1;
       let tokens = tokenize pf arg '','';
       assert (length tokens mod 2 = 0);
       for_loop (stride 0 (length tokens) 2) (rotate_pair pf tokens) (m, out)
     } else if opt = ''help'' then Some (m, out @ [HelpText])
     else if opt = ''show'' then do {
       shown \<leftarrow> show_parameters m;
       Some (m, out @ shown)
     } else Some (m, out @ [OptionError opt])
   })"

definition parse_options ::
  "'d platform \<Rightarrow> string list \<Rightarrow> 'd mesh \<times> 'd message list \<Rightarrow> ('d mesh \<times> 'd message list) option" where
  "parse_options pf groups =
     for_loop [1 ..< length groups] (\<lambda>i s. do {
         grp \<leftarrow> vec_get groups i;
         parse_option pf grp s
       })"

text \<open>\<open>GeneratedMesh(const std::string &parameters, int proc_count, int my_proc)\<close>\<close>

definition GeneratedMesh_parameters ::
  "'d platform \<Rightarrow> string \<Rightarrow> nat \<Rightarrow> nat \<Rightarrow> ('d mesh \<times> 'd message list) option" where
  "GeneratedMesh_parameters pf parameters proc_count my_proc = do {
     let groups = tokenize pf parameters ''|+'';
     grp \<leftarrow> vec_get groups 0;
     let tokens = tokenize pf grp ''x'';
     assert (length tokens = 3);
     let m = (members pf 0 0 0 0 proc_count my_proc)
               \<lparr>numX := strtol pf (tokens ! 0), numY := strtol pf (tokens ! 1),
                numZ := strtol pf (tokens ! 2)\<rparr>;
     m \<leftarrow> initialize pf m;
     parse_options pf groups (m, [])
   }"

subsection \<open>A platform to run the model on\<close>

text \<open>
  The theorems below hold for every platform. To evaluate the model on concrete inputs,
  this platform computes on the reals, splits a string at the separator characters
  (dropping empty tokens) and reads a number as the decimal digits a token starts with.
\<close>

fun split_at :: "string \<Rightarrow> string \<Rightarrow> string \<Rightarrow> string list" where
  "split_at seps tok [] = (if tok = [] then [] else [tok])"
| "split_at seps tok (c # cs) =
     (if c \<in> set seps then (if tok = [] then [] else [tok]) @ split_at seps [] cs
      else split_at seps (tok @ [c]) cs)"

fun decimal :: "nat \<Rightarrow> string \<Rightarrow> nat" where
  "decimal n [] = n"
| "decimal n (c # cs) =
     (if 48 \<le> (of_char c :: nat) \<and> (of_char c :: nat) \<le> 57
      then decimal (10 * n + (of_char c - 48)) cs else n)"

definition real_atan2 :: "real \<Rightarrow> real \<Rightarrow> real" where
  "real_atan2 y x =
     (if 0 < x then arctan (y / x)
      else if x < 0 \<and> 0 \<le> y then arctan (y / x) + pi
      else if x < 0 then arctan (y / x) - pi
      else if 0 < y then pi / 2
      else if y < 0 then - (pi / 2)
      else 0)"

definition real_platform :: "real platform" where
  "real_platform =
     \<lparr>tokenize = (\<lambda>src seps. split_at seps [] src),
      strtol = decimal 0,
      strtod = (\<lambda>s. real (decimal 0 s)),
      dbl = real,
      d_add = (+), d_sub = (-), d_mul = (*), d_div = (/),
      d_neg = uminus, d_cos = cos, d_sin = sin, d_atan2 = real_atan2\<rparr>"

section \<open>Properties\<close>

subsection \<open>The uniform partition\<close>

lemma GeneratedMesh_fields:
  assumes "P \<le> nz"
  shows "\<exists>m. GeneratedMesh pf nx ny nz P r = Some m
           \<and> numX m = nx \<and> numY m = ny \<and> numZ m = nz
           \<and> processorCount m = P \<and> myProcessor m = r
           \<and> shellBlocks m = [] \<and> doRotation m = False
           \<and> myNumZ m = (if 1 < P then nz div P + (if r < nz mod P then 1 else 0) else nz)
           \<and> myStartZ m = (if 1 < P then r * (nz div P) + min (nz mod P) r else 0)"
  using assms
  by (simp add: GeneratedMesh_def initialize_def members_def assert_def Let_def min_def)

lemma uniform_start_prefix:
  "r * q + min e r = (\<Sum>i<r. q + (if i < e then 1 else 0 :: nat))"
  by (induction r) (auto simp: min_def)

lemma prefix_tiles:
  fixes n :: "nat \<Rightarrow> nat"
  shows "(\<Union>r<k. {sum n {..<r} ..< sum n {..<r} + n r}) = {0 ..< sum n {..<k}}"
proof (induction k)
  case 0
  show ?case by simp
next
  case (Suc k)
  have "(\<Union>r<Suc k. {sum n {..<r} ..< sum n {..<r} + n r})
        = (\<Union>r<k. {sum n {..<r} ..< sum n {..<r} + n r}) \<union> {sum n {..<k} ..< sum n {..<k} + n k}"
    by (simp add: lessThan_Suc Un_commute)
  also have "\<dots> = {0 ..< sum n {..<k}} \<union> {sum n {..<k} ..< sum n {..<k} + n k}"
    by (simp only: Suc.IH)
  also have "\<dots> = {0 ..< sum n {..<Suc k}}"
    by (auto simp: ivl_disj_un)
  finally show ?case .
qed

lemma prefix_mono:
  fixes n :: "nat \<Rightarrow> nat"
  assumes "r < t"
  shows "sum n {..<r} + n r \<le> sum n {..<t}"
proof -
  have "sum n {..<Suc r} \<le> sum n {..<t}"
    by (rule sum_mono2) (use assms in auto)
  then show ?thesis by simp
qed

lemma prefix_disjoint:
  fixes n :: "nat \<Rightarrow> nat"
  assumes "r \<noteq> t"
  shows "{sum n {..<r} ..< sum n {..<r} + n r} \<inter> {sum n {..<t} ..< sum n {..<t} + n t} = {}"
proof (cases "r < t")
  case True
  from prefix_mono [OF this, of n] show ?thesis by auto
next
  case False
  with assms have "t < r" by simp
  from prefix_mono [OF this, of n] show ?thesis by auto
qed

text \<open>
  Claim C1. With the uniform split, the constructor succeeds for every rank \<open>r\<close> of
  \<open>P\<close> processors when \<open>P \<le> numZ\<close>, and gives the rank the slab that starts at
  \<open>r * (numZ div P) + min (numZ mod P) r\<close> and has \<open>numZ div P\<close> intervals, plus one
  for the first \<open>numZ mod P\<close> ranks. The slabs follow each other in the order of the
  ranks from 0 to \<open>numZ\<close>: they are pairwise disjoint and their union is \<open>{0..<numZ}\<close>.
  The interval counts of the other two axes play no role.
\<close>

theorem uniform_partition:
  assumes "0 < P" and "P \<le> nz"
  shows "\<exists>M. (\<forall>r<P. GeneratedMesh pf nx ny nz P r = Some (M r)
                  \<and> myStartZ (M r) = r * (nz div P) + min (nz mod P) r
                  \<and> myNumZ (M r) = nz div P + (if r < nz mod P then 1 else 0))
             \<and> myStartZ (M 0) = 0
             \<and> (\<forall>r. r + 1 < P \<longrightarrow> myStartZ (M (r + 1)) = myStartZ (M r) + myNumZ (M r))
             \<and> myStartZ (M (P - 1)) + myNumZ (M (P - 1)) = nz
             \<and> (\<forall>r<P. \<forall>t<P. r \<noteq> t \<longrightarrow>
                  {myStartZ (M r) ..< myStartZ (M r) + myNumZ (M r)}
                  \<inter> {myStartZ (M t) ..< myStartZ (M t) + myNumZ (M t)} = {})
             \<and> (\<Union>r<P. {myStartZ (M r) ..< myStartZ (M r) + myNumZ (M r)}) = {0 ..< nz}"
proof -
  define q where "q = nz div P"
  define e where "e = nz mod P"
  define n where "n = (\<lambda>r. q + (if r < e then 1 else 0 :: nat))"
  define M where "M = (\<lambda>r. the (GeneratedMesh pf nx ny nz P r))"
  have e_less: "e < P" using assms by (simp add: e_def)
  have split: "P * q + e = nz" by (simp add: q_def e_def)
  have mesh: "GeneratedMesh pf nx ny nz P r = Some (M r)
      \<and> myStartZ (M r) = r * q + min e r \<and> myNumZ (M r) = n r" if "r < P" for r
  proof -
    from GeneratedMesh_fields [OF assms(2), of pf nx ny r] obtain m where
      m: "GeneratedMesh pf nx ny nz P r = Some m"
        "myNumZ m = (if 1 < P then nz div P + (if r < nz mod P then 1 else 0) else nz)"
        "myStartZ m = (if 1 < P then r * (nz div P) + min (nz mod P) r else 0)"
      by blast
    have Mr: "M r = m" by (simp add: M_def m(1))
    show ?thesis
    proof (cases "1 < P")
      case True
      with m Mr show ?thesis by (simp add: q_def e_def n_def)
    next
      case False
      with assms that have "P = 1" "r = 0" by simp_all
      with m Mr show ?thesis by (simp add: q_def e_def n_def)
    qed
  qed
  have start: "myStartZ (M r) = sum n {..<r}" if "r < P" for r
    using mesh [OF that] by (simp add: n_def uniform_start_prefix)
  have num: "myNumZ (M r) = n r" if "r < P" for r
    using mesh [OF that] by simp
  have total: "sum n {..<P} = nz"
  proof -
    have "sum n {..<P} = P * q + min e P"
      by (simp add: n_def uniform_start_prefix [symmetric])
    with e_less split show ?thesis by (simp add: min_def)
  qed
  have c1: "\<forall>r<P. GeneratedMesh pf nx ny nz P r = Some (M r)
                  \<and> myStartZ (M r) = r * (nz div P) + min (nz mod P) r
                  \<and> myNumZ (M r) = nz div P + (if r < nz mod P then 1 else 0)"
    using mesh by (simp add: q_def e_def n_def)
  have c2: "myStartZ (M 0) = 0"
    using start [of 0] assms by simp
  have c3: "\<forall>r. r + 1 < P \<longrightarrow> myStartZ (M (r + 1)) = myStartZ (M r) + myNumZ (M r)"
    by (simp add: start num)
  have c4: "myStartZ (M (P - 1)) + myNumZ (M (P - 1)) = nz"
  proof -
    from assms obtain k where k: "P = Suc k" by (cases P) simp_all
    then have "myStartZ (M k) + myNumZ (M k) = sum n {..<Suc k}"
      by (simp add: start num)
    with total k show ?thesis by simp
  qed
  have c5: "\<forall>r<P. \<forall>t<P. r \<noteq> t \<longrightarrow>
                  {myStartZ (M r) ..< myStartZ (M r) + myNumZ (M r)}
                  \<inter> {myStartZ (M t) ..< myStartZ (M t) + myNumZ (M t)} = {}"
  proof (intro allI impI)
    fix r t
    assume rt: "r < P" "t < P" "r \<noteq> t"
    from prefix_disjoint [OF rt(3), of n] show
      "{myStartZ (M r) ..< myStartZ (M r) + myNumZ (M r)}
       \<inter> {myStartZ (M t) ..< myStartZ (M t) + myNumZ (M t)} = {}"
      by (simp only: start [OF rt(1)] start [OF rt(2)] num [OF rt(1)] num [OF rt(2)])
  qed
  have c6: "(\<Union>r<P. {myStartZ (M r) ..< myStartZ (M r) + myNumZ (M r)}) = {0 ..< nz}"
  proof -
    have "(\<Union>r<P. {myStartZ (M r) ..< myStartZ (M r) + myNumZ (M r)})
          = (\<Union>r<P. {sum n {..<r} ..< sum n {..<r} + n r})"
      by (simp add: start num)
    with prefix_tiles [of n P] total show ?thesis by simp
  qed
  from c1 c2 c3 c4 c5 c6 show ?thesis by blast
qed

text \<open>Five intervals on three processors: the slabs are 0-1, 2-3 and 4.\<close>

theorem uniform_partition_witness:
  "(0::nat) < 3 \<and> (3::nat) \<le> 5
   \<and> (\<exists>m. GeneratedMesh real_platform 2 2 5 3 1 = Some m \<and> myStartZ m = 2 \<and> myNumZ m = 2)
   \<and> (\<exists>m. GeneratedMesh real_platform 2 2 5 3 2 = Some m \<and> myStartZ m = 4 \<and> myNumZ m = 1)"
proof -
  have h: "(0::nat) < 3" "(3::nat) \<le> 5" by simp_all
  from uniform_partition [OF h, of real_platform 2 2] obtain M where
    M: "\<forall>r<3. GeneratedMesh real_platform 2 2 5 3 r = Some (M r)
                  \<and> myStartZ (M r) = r * (5 div 3) + min (5 mod 3) r
                  \<and> myNumZ (M r) = 5 div 3 + (if r < 5 mod 3 then 1 else 0)"
    by blast
  with h show ?thesis by simp
qed

subsection \<open>Loops\<close>

lemma for_loop_append:
  "for_loop (js @ ks) body s = Option.bind (for_loop js body s) (for_loop ks body)"
  by (induction js arbitrary: s) (simp_all add: Option.bind_assoc cong: Option.bind_cong)

lemma for_loop_Nil: "for_loop [] body = Some"
  by (rule ext) simp

lemma for_loop_single: "for_loop [k] body = body k"
  by (rule ext) (simp add: for_loop_Nil)

lemma for_loop_snoc:
  "for_loop (js @ [k]) body s = Option.bind (for_loop js body s) (body k)"
  by (simp only: for_loop_append for_loop_single)

lemma for_loop_map: "for_loop (map g js) body s = for_loop js (\<lambda>i. body (g i)) s"
  by (induction js arbitrary: s) (simp_all cong: Option.bind_cong)

lemma for_loop_cong:
  assumes "\<And>i s. i \<in> set js \<Longrightarrow> body i s = body' i s"
  shows "for_loop js body s = for_loop js body' s"
  using assms
proof (induction js arbitrary: s)
  case Nil
  show ?case by simp
next
  case (Cons j js)
  have "for_loop js body t = for_loop js body' t" for t
    by (rule Cons.IH) (simp add: Cons.prems)
  then have "for_loop js body = for_loop js body'" by (rule ext)
  with Cons.prems [of j s] show ?case by simp
qed

lemma for_loop_sum:
  fixes f :: "nat \<Rightarrow> nat"
  assumes "\<And>i c. i \<in> set js \<Longrightarrow> body i c = Some (c + f i)"
  shows "for_loop js body c = Some (c + sum_list (map f js))"
  using assms
  by (induction js arbitrary: c) (simp_all add: add.assoc)

lemma sum_list_nth_upt:
  fixes f :: "'a \<Rightarrow> nat"
  shows "sum_list (map (\<lambda>i. f (xs ! i)) [0 ..< length xs]) = sum_list (map f xs)"
proof -
  have "map (\<lambda>i. f (xs ! i)) [0 ..< length xs] = map f (map (\<lambda>i. xs ! i) [0 ..< length xs])"
    by simp
  also have "\<dots> = map f xs" by (simp only: map_nth)
  finally show ?thesis by simp
qed

subsection \<open>Arithmetic of the machine integers\<close>

lemma size_t_eq: "size_t n = n mod 2 ^ 64"
proof -
  have "int n mod 2 ^ 64 = int (n mod 2 ^ 64)" by (simp add: of_nat_mod)
  then show ?thesis by (simp only: size_t_def nat_int)
qed

lemma static_cast_int_eq:
  "static_cast_int n =
     (if n mod 2 ^ 32 < 2 ^ 31 then int (n mod 2 ^ 32) else int (n mod 2 ^ 32) - 2 ^ 32)"
proof -
  have "int n mod 2 ^ 32 = int (n mod 2 ^ 32)" by (simp add: of_nat_mod)
  then show ?thesis by (simp add: static_cast_int_def Let_def)
qed

lemma size_t_small: "n < 2 ^ 64 \<Longrightarrow> size_t n = n"
  by (simp add: size_t_eq)

lemma size_t_less: "size_t n < 2 ^ 64"
  by (simp add: size_t_eq)

lemma size_t_idem [simp]: "size_t (size_t n) = size_t n"
  by (simp add: size_t_eq)

lemma size_t_0 [simp]: "size_t 0 = 0"
  by (simp add: size_t_eq)

lemma size_t_add_left [simp]: "size_t (size_t a + b) = size_t (a + b)"
  by (simp add: size_t_eq mod_add_left_eq)

lemma size_t_add_right [simp]: "size_t (a + size_t b) = size_t (a + b)"
  by (simp add: size_t_eq mod_add_right_eq)

lemma size_t_mult_left [simp]: "size_t (size_t a * b) = size_t (a * b)"
  by (simp add: size_t_eq mod_mult_left_eq)

lemma size_t_mult_right [simp]: "size_t (a * size_t b) = size_t (a * b)"
  by (simp add: size_t_eq mod_mult_right_eq)

lemma size_t_minus_le:
  assumes "b \<le> a"
  shows "size_t_minus a b = size_t (a - b)"
proof -
  from assms have "int a - int b = int (a - b)" by simp
  then have "size_t_minus a b = nat (int (a - b) mod 2 ^ 64)"
    by (simp only: size_t_minus_def)
  also have "\<dots> = (a - b) mod 2 ^ 64"
    by (simp add: nat_mod_distrib)
  finally show ?thesis by (simp add: size_t_eq)
qed

lemma static_cast_int_size_t [simp]: "static_cast_int (size_t n) = static_cast_int n"
proof -
  have "(2::nat) ^ 32 dvd 2 ^ 64" by (rule le_imp_power_dvd) simp
  then have "n mod 2 ^ 64 mod 2 ^ 32 = n mod 2 ^ 32" by (rule mod_mod_cancel)
  then show ?thesis by (simp add: static_cast_int_eq size_t_eq)
qed

lemma static_cast_int_small: "n < 2 ^ 31 \<Longrightarrow> static_cast_int n = int n"
  by (simp add: static_cast_int_eq)

lemma size_t_sum_list:
  "size_t (c + sum_list (map (\<lambda>x. size_t (g x)) xs)) = size_t (c + sum_list (map g xs))"
proof (induction xs arbitrary: c)
  case Nil
  show ?case by simp
next
  case (Cons x xs)
  let ?S = "sum_list (map (\<lambda>x. size_t (g x)) xs)"
  have "c + (size_t (g x) + ?S) = size_t (g x) + (c + ?S)" by simp
  then have "size_t (c + (size_t (g x) + ?S)) = size_t (g x + (c + ?S))"
    by (simp only: size_t_add_left)
  also have "g x + (c + ?S) = (c + g x) + ?S" by simp
  also have "size_t ((c + g x) + ?S) = size_t ((c + g x) + sum_list (map g xs))"
    by (rule Cons.IH)
  finally show ?case by (simp add: add.assoc)
qed

lemma size_t_sum:
  fixes P :: nat
  shows "size_t (\<Sum>r<P. size_t (f r)) = size_t (\<Sum>r<P. f r)"
proof (induction P)
  case 0
  show ?case by simp
next
  case (Suc P)
  have "size_t ((\<Sum>r<P. size_t (f r)) + size_t (f P)) = size_t (size_t (\<Sum>r<P. size_t (f r)) + f P)"
    by simp
  also have "\<dots> = size_t (size_t (\<Sum>r<P. f r) + f P)" by (simp only: Suc.IH)
  finally show ?case by simp
qed

lemma for_loop_size_t_sum:
  fixes f :: "nat \<Rightarrow> nat"
  assumes "\<And>i c. i \<in> set js \<Longrightarrow> body i c = Some (size_t (c + f i))"
  shows "for_loop js body (size_t c) = Some (size_t (c + sum_list (map f js)))"
  using assms
proof (induction js arbitrary: c)
  case Nil
  show ?case by simp
next
  case (Cons j js)
  have "for_loop js body (size_t (c + f j)) = Some (size_t (c + f j + sum_list (map f js)))"
    by (rule Cons.IH) (simp add: Cons.prems)
  then show ?case by (simp add: Cons.prems add.assoc)
qed

subsection \<open>Element counts\<close>

lemma element_count_block_1 [simp]:
  "element_count_block m (Suc 0) = Some (size_t (numX m * numY m * numZ m))"
  by (simp add: element_count_block_def assert_def block_count_def)

lemma element_count_block_shell:
  "i < length (shellBlocks m) \<Longrightarrow>
   element_count_block m (Suc (Suc i)) = Some (shell_element_count m (shellBlocks m ! i))"
  by (simp add: element_count_block_def assert_def block_count_def shell_block_def vec_get_def)

lemma element_count_proc_block_1 [simp]:
  "element_count_proc_block m (Suc 0) = Some (size_t (numX m * numY m * myNumZ m))"
  by (simp add: element_count_proc_block_def assert_def block_count_def)

lemma element_count_proc_block_shell:
  "i < length (shellBlocks m) \<Longrightarrow>
   element_count_proc_block m (Suc (Suc i)) = Some (shell_element_count_proc m (shellBlocks m ! i))"
  by (simp add: element_count_proc_block_def assert_def block_count_def shell_block_def vec_get_def)

lemma shell_element_count_case:
  "shell_element_count m loc =
     size_t (case loc of MX \<Rightarrow> numY m * numZ m | PX \<Rightarrow> numY m * numZ m
                       | MY \<Rightarrow> numX m * numZ m | PY \<Rightarrow> numX m * numZ m
                       | MZ \<Rightarrow> numX m * numY m | PZ \<Rightarrow> numX m * numY m)"
  by (cases loc) simp_all

lemma shell_element_count_proc_case:
  "shell_element_count_proc m loc =
     size_t (case loc of MX \<Rightarrow> numY m * myNumZ m | PX \<Rightarrow> numY m * myNumZ m
                       | MY \<Rightarrow> numX m * myNumZ m | PY \<Rightarrow> numX m * myNumZ m
                       | MZ \<Rightarrow> if myProcessor m = 0 then numX m * numY m else 0
                       | PZ \<Rightarrow> if myProcessor m + 1 = processorCount m
                                then numX m * numY m else 0)"
  by (cases loc) simp_all

lemma element_count_eq:
  "element_count m =
     Some (size_t (numX m * numY m * numZ m
                   + (\<Sum>loc\<leftarrow>shellBlocks m.
                        case loc of MX \<Rightarrow> numY m * numZ m | PX \<Rightarrow> numY m * numZ m
                                  | MY \<Rightarrow> numX m * numZ m | PY \<Rightarrow> numX m * numZ m
                                  | MZ \<Rightarrow> numX m * numY m | PZ \<Rightarrow> numX m * numY m)))"
proof -
  let ?h = "numX m * numY m * numZ m"
  have "for_loop [0 ..< length (shellBlocks m)]
          (\<lambda>i count. Option.bind (element_count_block m (i + 2)) (\<lambda>c. Some (size_t (count + c))))
          (size_t ?h)
        = Some (size_t (?h + sum_list (map (\<lambda>i. shell_element_count m (shellBlocks m ! i))
                                [0 ..< length (shellBlocks m)])))"
    by (rule for_loop_size_t_sum) (simp add: element_count_block_shell)
  then have "element_count m =
      Some (size_t (?h + sum_list (map (shell_element_count m) (shellBlocks m))))"
    by (simp add: element_count_def sum_list_nth_upt)
  then show ?thesis
    by (simp only: shell_element_count_case [abs_def] size_t_sum_list)
qed

lemma element_count_proc_eq:
  "element_count_proc m =
     Some (size_t (numX m * numY m * myNumZ m
                   + (\<Sum>loc\<leftarrow>shellBlocks m.
                        case loc of MX \<Rightarrow> numY m * myNumZ m | PX \<Rightarrow> numY m * myNumZ m
                                  | MY \<Rightarrow> numX m * myNumZ m | PY \<Rightarrow> numX m * myNumZ m
                                  | MZ \<Rightarrow> if myProcessor m = 0 then numX m * numY m else 0
                                  | PZ \<Rightarrow> if myProcessor m + 1 = processorCount m
                                           then numX m * numY m else 0)))"
proof -
  let ?n = "length (shellBlocks m)"
  let ?h = "numX m * numY m * myNumZ m"
  let ?body = "\<lambda>i count. Option.bind (element_count_proc_block m (i + 1))
                            (\<lambda>c. Some (size_t (count + c)))"
  have blocks: "[0 ..< block_count m] = 0 # map Suc [0 ..< ?n]"
    by (simp add: block_count_def upt_conv_Cons map_Suc_upt del: upt_Suc)
  have "for_loop [0 ..< ?n] (\<lambda>i. ?body (Suc i)) (size_t ?h)
        = Some (size_t (?h + sum_list (map (\<lambda>i. shell_element_count_proc m (shellBlocks m ! i))
                                [0 ..< ?n])))"
    by (rule for_loop_size_t_sum) (simp add: element_count_proc_block_shell)
  then have "for_loop (map Suc [0 ..< ?n]) ?body (size_t ?h)
        = Some (size_t (?h + sum_list (map (shell_element_count_proc m) (shellBlocks m))))"
    by (simp only: for_loop_map sum_list_nth_upt)
  then have "element_count_proc m =
      Some (size_t (?h + sum_list (map (shell_element_count_proc m) (shellBlocks m))))"
    unfolding element_count_proc_def blocks by simp
  then show ?thesis
    by (simp only: shell_element_count_proc_case [abs_def] size_t_sum_list)
qed

lemma sum_sum_list_swap:
  fixes f :: "nat \<Rightarrow> 'a \<Rightarrow> nat"
  shows "(\<Sum>r<P. sum_list (map (f r) xs)) = sum_list (map (\<lambda>x. \<Sum>r<P. f r x) xs)"
  by (induction xs) (simp_all add: sum.distrib)

lemma sum_last_rank:
  fixes c :: nat and P :: nat
  assumes "0 < P"
  shows "(\<Sum>r<P. if r + 1 = P then c else 0) = c"
proof -
  have "(\<Sum>r<P. if r + 1 = P then c else 0) = (\<Sum>r<P. if r = P - 1 then c else 0)"
    by (rule sum.cong) (use assms in auto)
  also have "\<dots> = c" using assms by simp
  finally show ?thesis .
qed

lemma shell_count_over_ranks:
  fixes z :: "nat \<Rightarrow> nat"
  assumes P: "0 < P" and total: "(\<Sum>r<P. z r) = nz"
  shows "(\<Sum>r<P. case loc of MX \<Rightarrow> ny * z r | PX \<Rightarrow> ny * z r
                          | MY \<Rightarrow> nx * z r | PY \<Rightarrow> nx * z r
                          | MZ \<Rightarrow> if r = 0 then nx * ny else 0
                          | PZ \<Rightarrow> if r + 1 = P then nx * ny else 0) =
         (case loc of MX \<Rightarrow> ny * nz | PX \<Rightarrow> ny * nz | MY \<Rightarrow> nx * nz | PY \<Rightarrow> nx * nz
                    | MZ \<Rightarrow> nx * ny | PZ \<Rightarrow> nx * (ny :: nat))"
proof -
  have y: "(\<Sum>r<P. ny * z r) = ny * nz"
    by (simp add: sum_distrib_left [symmetric] total)
  have x: "(\<Sum>r<P. nx * z r) = nx * nz"
    by (simp add: sum_distrib_left [symmetric] total)
  have z0: "(\<Sum>r<P. if r = 0 then nx * ny else 0) = nx * ny"
    using P by simp
  have z1: "(\<Sum>r<P. if r + 1 = P then nx * ny else 0) = nx * ny"
    by (rule sum_last_rank [OF P])
  show ?thesis
    by (cases loc) (simp_all only: x y z0 z1 ShellLocation.case)
qed

text \<open>
  Claim C4, amended. \<open>element_count()\<close> is \<open>numX*numY*numZ\<close> plus, for every declared
  shell block, the global count of its face, reduced modulo \<open>2^64\<close> as the source adds
  and multiplies in \<open>size_t\<close>; it is that number when the number is below \<open>2^64\<close>. For
  the generators \<open>ms r\<close> of the ranks \<open>r < P\<close> of one mesh (the same intervals and
  shell blocks on every rank, slabs whose sizes add up to \<open>numZ\<close>), the values of
  \<open>element_count_proc()\<close> add up to \<open>element_count()\<close> modulo \<open>2^64\<close>, and they add
  up to \<open>element_count()\<close> when the mesh has fewer than \<open>2^64\<close> elements; the count of
  an \<open>MZ\<close> block on a processor is \<open>numX*numY\<close> (modulo \<open>2^64\<close>) on rank 0 and 0
  elsewhere, that of a \<open>PZ\<close> block is \<open>numX*numY\<close> (modulo \<open>2^64\<close>) on the last rank
  and 0 elsewhere.
\<close>

theorem element_count_total:
  fixes ms :: "nat \<Rightarrow> 'd mesh"
  assumes P: "0 < P"
    and fam: "\<forall>r<P. numX (ms r) = nx \<and> numY (ms r) = ny \<and> numZ (ms r) = nz
               \<and> shellBlocks (ms r) = sb \<and> processorCount (ms r) = P \<and> myProcessor (ms r) = r"
    and total: "(\<Sum>r<P. myNumZ (ms r)) = nz"
  shows "(let t = numX m * numY m * numZ m
                  + (\<Sum>loc\<leftarrow>shellBlocks m.
                       case loc of MX \<Rightarrow> numY m * numZ m | PX \<Rightarrow> numY m * numZ m
                                 | MY \<Rightarrow> numX m * numZ m | PY \<Rightarrow> numX m * numZ m
                                 | MZ \<Rightarrow> numX m * numY m | PZ \<Rightarrow> numX m * numY m)
          in element_count m = Some (t mod 2 ^ 64)
             \<and> (t < 2 ^ 64 \<longrightarrow> element_count m = Some t))
         \<and> (\<exists>c. (\<forall>r<P. element_count_proc (ms r) = Some (c r))
                \<and> (\<forall>r<P. element_count (ms r) = Some ((\<Sum>r<P. c r) mod 2 ^ 64))
                \<and> (nx * ny * nz
                     + (\<Sum>loc\<leftarrow>sb. case loc of MX \<Rightarrow> ny * nz | PX \<Rightarrow> ny * nz
                                              | MY \<Rightarrow> nx * nz | PY \<Rightarrow> nx * nz
                                              | MZ \<Rightarrow> nx * ny | PZ \<Rightarrow> nx * ny) < 2 ^ 64
                    \<longrightarrow> (\<forall>r<P. element_count (ms r) = Some (\<Sum>r<P. c r))))
         \<and> (\<forall>r<P. shell_element_count_proc (ms r) MZ = (if r = 0 then (nx * ny) mod 2 ^ 64 else 0)
                  \<and> shell_element_count_proc (ms r) PZ
                      = (if r = P - 1 then (nx * ny) mod 2 ^ 64 else 0))"
proof -
  define g where "g = (\<lambda>loc. case loc of MX \<Rightarrow> ny * nz | PX \<Rightarrow> ny * nz | MY \<Rightarrow> nx * nz
                                   | PY \<Rightarrow> nx * nz | MZ \<Rightarrow> nx * ny | PZ \<Rightarrow> nx * ny)"
  define p where "p = (\<lambda>r loc. case loc of MX \<Rightarrow> ny * myNumZ (ms r) | PX \<Rightarrow> ny * myNumZ (ms r)
                          | MY \<Rightarrow> nx * myNumZ (ms r) | PY \<Rightarrow> nx * myNumZ (ms r)
                          | MZ \<Rightarrow> if r = 0 then nx * ny else 0
                          | PZ \<Rightarrow> if r + 1 = P then nx * ny else 0)"
  define t where "t = (\<lambda>r. nx * ny * myNumZ (ms r) + sum_list (map (p r) sb))"
  define T where "T = nx * ny * nz + sum_list (map g sb)"
  define c where "c = (\<lambda>r. size_t (t r))"
  have first: "let t = numX m * numY m * numZ m
                  + (\<Sum>loc\<leftarrow>shellBlocks m.
                       case loc of MX \<Rightarrow> numY m * numZ m | PX \<Rightarrow> numY m * numZ m
                                 | MY \<Rightarrow> numX m * numZ m | PY \<Rightarrow> numX m * numZ m
                                 | MZ \<Rightarrow> numX m * numY m | PZ \<Rightarrow> numX m * numY m)
          in element_count m = Some (t mod 2 ^ 64)
             \<and> (t < 2 ^ 64 \<longrightarrow> element_count m = Some t)"
    unfolding Let_def element_count_eq size_t_eq by simp
  have proc: "element_count_proc (ms r) = Some (c r)" if "r < P" for r
  proof -
    from fam that have f: "numX (ms r) = nx" "numY (ms r) = ny" "shellBlocks (ms r) = sb"
      "processorCount (ms r) = P" "myProcessor (ms r) = r" by simp_all
    show ?thesis
      unfolding element_count_proc_eq f c_def t_def p_def ..
  qed
  have glob: "element_count (ms r) = Some (size_t T)" if "r < P" for r
  proof -
    from fam that have f: "numX (ms r) = nx" "numY (ms r) = ny" "numZ (ms r) = nz"
      "shellBlocks (ms r) = sb" by simp_all
    show ?thesis
      unfolding element_count_eq f T_def g_def ..
  qed
  have hex: "(\<Sum>r<P. nx * ny * myNumZ (ms r)) = nx * ny * nz"
    by (simp add: sum_distrib_left [symmetric] total)
  have shells: "(\<Sum>r<P. sum_list (map (p r) sb)) = sum_list (map g sb)"
  proof -
    have "(\<Sum>r<P. sum_list (map (p r) sb)) = sum_list (map (\<lambda>loc. \<Sum>r<P. p r loc) sb)"
      by (rule sum_sum_list_swap)
    also have "\<dots> = sum_list (map g sb)"
      unfolding p_def g_def
      by (simp only: shell_count_over_ranks [OF P total])
    finally show ?thesis .
  qed
  have sum_t: "(\<Sum>r<P. t r) = T"
    by (simp add: t_def T_def sum.distrib hex shells)
  have sum_c: "size_t (\<Sum>r<P. c r) = size_t T"
    unfolding c_def size_t_sum sum_t ..
  have exact: "(\<Sum>r<P. c r) = T" if "T < 2 ^ 64"
  proof -
    have "c r = t r" if "r < P" for r
    proof -
      have "t r \<le> (\<Sum>r<P. t r)"
        by (rule member_le_sum) (use that in simp_all)
      with sum_t \<open>T < 2 ^ 64\<close> have "t r < 2 ^ 64" by simp
      then show ?thesis by (simp add: c_def size_t_small)
    qed
    then have "(\<Sum>r<P. c r) = (\<Sum>r<P. t r)" by simp
    with sum_t show ?thesis by simp
  qed
  have second: "\<exists>c. (\<forall>r<P. element_count_proc (ms r) = Some (c r))
                \<and> (\<forall>r<P. element_count (ms r) = Some ((\<Sum>r<P. c r) mod 2 ^ 64))
                \<and> (nx * ny * nz
                     + (\<Sum>loc\<leftarrow>sb. case loc of MX \<Rightarrow> ny * nz | PX \<Rightarrow> ny * nz
                                              | MY \<Rightarrow> nx * nz | PY \<Rightarrow> nx * nz
                                              | MZ \<Rightarrow> nx * ny | PZ \<Rightarrow> nx * ny) < 2 ^ 64
                    \<longrightarrow> (\<forall>r<P. element_count (ms r) = Some (\<Sum>r<P. c r)))"
  proof (intro exI [of _ c] conjI allI impI)
    fix r assume "r < P"
    then show "element_count_proc (ms r) = Some (c r)" by (rule proc)
  next
    fix r assume "r < P"
    then have "element_count (ms r) = Some (size_t (\<Sum>r<P. c r))"
      by (simp only: glob sum_c)
    then show "element_count (ms r) = Some ((\<Sum>r<P. c r) mod 2 ^ 64)"
      by (simp only: size_t_eq)
  next
    fix r
    assume small: "nx * ny * nz
                     + (\<Sum>loc\<leftarrow>sb. case loc of MX \<Rightarrow> ny * nz | PX \<Rightarrow> ny * nz
                                              | MY \<Rightarrow> nx * nz | PY \<Rightarrow> nx * nz
                                              | MZ \<Rightarrow> nx * ny | PZ \<Rightarrow> nx * ny) < 2 ^ 64"
      and r: "r < P"
    from small have T: "T < 2 ^ 64" by (simp only: T_def g_def)
    from glob [OF r] T exact [OF T] show "element_count (ms r) = Some (\<Sum>r<P. c r)"
      by (simp add: size_t_small)
  qed
  have third: "\<forall>r<P. shell_element_count_proc (ms r) MZ = (if r = 0 then (nx * ny) mod 2 ^ 64 else 0)
                  \<and> shell_element_count_proc (ms r) PZ
                      = (if r = P - 1 then (nx * ny) mod 2 ^ 64 else 0)"
    using fam P by (auto simp: size_t_eq)
  from first second third show ?thesis by blast
qed

text \<open>
  A 2 x 2 x 3 mesh with the shell blocks \<open>MX\<close> and \<open>PZ\<close> on two processors: 12
  hexahedra, 6 and 4 shell elements.
\<close>

theorem element_count_total_witness:
  "\<exists>m0 m1 c0 c1.
      GeneratedMesh real_platform 2 2 3 2 0 = Some m0
    \<and> GeneratedMesh real_platform 2 2 3 2 1 = Some m1
    \<and> element_count_proc (add_shell_block PZ (add_shell_block MX m0)) = Some c0
    \<and> element_count_proc (add_shell_block PZ (add_shell_block MX m1)) = Some c1
    \<and> element_count (add_shell_block PZ (add_shell_block MX m0)) = Some (c0 + c1)
    \<and> c0 + c1 = 22"
proof -
  from GeneratedMesh_fields [of 2 3 real_platform 2 2 0] obtain m0 where
    m0: "GeneratedMesh real_platform 2 2 3 2 0 = Some m0" "numX m0 = 2" "numY m0 = 2"
      "numZ m0 = 3" "processorCount m0 = 2" "myProcessor m0 = 0" "shellBlocks m0 = []"
      "myNumZ m0 = 2"
    by auto
  from GeneratedMesh_fields [of 2 3 real_platform 2 2 1] obtain m1 where
    m1: "GeneratedMesh real_platform 2 2 3 2 1 = Some m1" "numX m1 = 2" "numY m1 = 2"
      "numZ m1 = 3" "processorCount m1 = 2" "myProcessor m1 = 1" "shellBlocks m1 = []"
      "myNumZ m1 = 1"
    by auto
  define ms where "ms = (\<lambda>r::nat. add_shell_block PZ (add_shell_block MX (if r = 0 then m0 else m1)))"
  have P: "(0::nat) < 2" by simp
  have fam: "\<forall>r<2. numX (ms r) = 2 \<and> numY (ms r) = 2 \<and> numZ (ms r) = 3
               \<and> shellBlocks (ms r) = [MX, PZ] \<and> processorCount (ms r) = 2 \<and> myProcessor (ms r) = r"
    using m0 m1 by (auto simp: ms_def add_shell_block_def)
  have total: "(\<Sum>r<2. myNumZ (ms r)) = 3"
    using m0 m1 by (simp add: ms_def add_shell_block_def numeral_2_eq_2)
  note counts = element_count_total [OF P fam total, of "ms 0"]
  from counts [THEN conjunct2, THEN conjunct1] obtain c where
    c: "\<forall>r<2. element_count_proc (ms r) = Some (c r)"
       "(2 :: nat) * 2 * 3
          + (\<Sum>loc\<leftarrow>[MX, PZ]. case loc of MX \<Rightarrow> 2 * 3 | PX \<Rightarrow> 2 * 3 | MY \<Rightarrow> 2 * 3
                                       | PY \<Rightarrow> 2 * 3 | MZ \<Rightarrow> 2 * 2 | PZ \<Rightarrow> 2 * 2) < 2 ^ 64
        \<longrightarrow> (\<forall>r<2. element_count (ms r) = Some (\<Sum>r<2. c r))"
    by blast
  from c(1) have c0: "element_count_proc (ms 0) = Some (c 0)" and c1: "element_count_proc (ms 1) = Some (c 1)"
    by simp_all
  from c(2) have "\<forall>r<2. element_count (ms r) = Some (\<Sum>r<2. c r)"
    by simp
  then have e: "element_count (ms 0) = Some (c 0 + c 1)"
    by (simp add: numeral_2_eq_2)
  from counts [THEN conjunct1] fam have "element_count (ms 0) = Some 22"
    by (simp add: Let_def)
  with e have v: "c 0 + c 1 = 22" by simp
  from m0(1) m1(1) c0 c1 e v show ?thesis
    by (simp add: ms_def)
qed

text \<open>
  The claim as it was stated, without the reduction, fails on the largest mesh that the
  constructor takes on one processor: \<open>2147483647^3\<close> is not below \<open>2^64\<close>, and
  \<open>element_count()\<close> returns \<open>4611686024869838847\<close>.
\<close>

theorem element_count_wraps:
  "Option.bind (GeneratedMesh real_platform 2147483647 2147483647 2147483647 1 0)
     (\<lambda>m. Some (element_count m,
                  numX m * numY m * numZ m
                  + (\<Sum>loc\<leftarrow>shellBlocks m.
                       case loc of MX \<Rightarrow> numY m * numZ m | PX \<Rightarrow> numY m * numZ m
                                 | MY \<Rightarrow> numX m * numZ m | PY \<Rightarrow> numX m * numZ m
                                 | MZ \<Rightarrow> numX m * numY m | PZ \<Rightarrow> numX m * numY m)))
   = Some (Some 4611686024869838847, 9903520300447984150353281023)"
proof -
  from GeneratedMesh_fields [of 1 2147483647 real_platform 2147483647 2147483647 0] obtain m where
    m: "GeneratedMesh real_platform 2147483647 2147483647 2147483647 1 0 = Some m"
      "numX m = 2147483647" "numY m = 2147483647" "numZ m = 2147483647" "shellBlocks m = []"
    by auto
  show ?thesis
    unfolding m(1) by (simp add: m(2-) element_count_eq size_t_eq)
qed

subsection \<open>Rotation about an unknown axis\<close>

lemma set_rotation_unknown_axis:
  assumes "axis_indices axis = None"
  shows "set_rotation pf axis angle_degrees m = (m\<lparr>doRotation := True\<rparr>, [AxisError axis])"
  using assms by (simp add: set_rotation_def Let_def)

lemma axis_indices_None:
  "axis_indices axis = None \<longleftrightarrow> axis \<notin> {''x'', ''X'', ''y'', ''Y'', ''z'', ''Z''}"
  by (simp add: axis_indices_def)

text \<open>
  Claim C9. For an axis that is none of \<open>x\<close>, \<open>X\<close>, \<open>y\<close>, \<open>Y\<close>, \<open>z\<close>, \<open>Z\<close> the call
  \<open>set_rotation(axis, angle)\<close> is not fatal, writes a message and leaves \<open>rotmat\<close> as it
  was. The flag \<open>doRotation\<close> however is assigned before the axis is looked at: on a
  freshly constructed generator, where the flag is false, it is true after the call
  \<open>set_rotation("w", 30)\<close>.
\<close>

theorem set_rotation_unknown_axis_sets_flag:
  "\<exists>m. GeneratedMesh real_platform 2 2 2 1 0 = Some m
       \<and> \<not> doRotation m
       \<and> doRotation (fst (set_rotation real_platform ''w'' 30 m))
       \<and> rotmat (fst (set_rotation real_platform ''w'' 30 m)) = rotmat m
       \<and> snd (set_rotation real_platform ''w'' 30 m) = [AxisError ''w'']"
proof -
  from GeneratedMesh_fields [of 1 2 real_platform 2 2 0] obtain m where
    m: "GeneratedMesh real_platform 2 2 2 1 0 = Some m" "doRotation m = False"
    by auto
  have "axis_indices ''w'' = None" by (simp add: axis_indices_def)
  then have "set_rotation real_platform ''w'' 30 m = (m\<lparr>doRotation := True\<rparr>, [AxisError ''w''])"
    by (rule set_rotation_unknown_axis)
  with m show ?thesis by simp
qed

subsection \<open>The \<open>zdecomp\<close> option\<close>

lemma take_eq_map_nth:
  "n \<le> length xs \<Longrightarrow> take n xs = map (\<lambda>i. xs ! i) [0 ..< n]"
  by (rule nth_equalityI) simp_all

lemma zdecomp_read_loop:
  assumes "n \<le> length tokens"
  shows "for_loop [0 ..< n] (\<lambda>j (Zs, num_z). do {
            t \<leftarrow> vec_get tokens j;
            let Zs = Zs @ [f t];
            z \<leftarrow> vec_get Zs j;
            Some (Zs, size_t (num_z + z))
          }) ([], 0 :: nat)
         = Some (map f (take n tokens), size_t (sum_list (map f (take n tokens))))"
  using assms
proof (induction n)
  case 0
  show ?case by simp
next
  case (Suc n)
  then have n: "n < length tokens" by simp
  with Suc.IH show ?case
    by (simp add: for_loop_snoc vec_get_def take_Suc_conv_app_nth nth_append)
qed

lemma zdecomp_start_loop:
  fixes Zs :: "nat list"
  assumes "r \<le> length Zs"
  shows "for_loop [0 ..< r] (\<lambda>j my_start_z. do {
            z \<leftarrow> vec_get Zs j;
            Some (size_t (my_start_z + z))
          }) 0
         = Some (size_t (sum_list (take r Zs)))"
proof -
  have "for_loop [0 ..< r]
          (\<lambda>j my_start_z. Option.bind (vec_get Zs j) (\<lambda>z. Some (size_t (my_start_z + z))))
          (size_t 0)
        = Some (size_t (0 + sum_list (map (\<lambda>j. Zs ! j) [0 ..< r])))"
    by (rule for_loop_size_t_sum) (use assms in \<open>simp add: vec_get_def\<close>)
  with assms show ?thesis by (simp add: take_eq_map_nth)
qed

lemma zdecomp_eq:
  assumes "length tokens = processorCount m" and "myProcessor m < processorCount m"
  shows "zdecomp pf tokens m =
           Some (m\<lparr>numZ := size_t (sum_list (map (strtol pf) tokens)),
                   myNumZ := size_t (map (strtol pf) tokens ! myProcessor m),
                   myStartZ := size_t (sum_list (take (myProcessor m) (map (strtol pf) tokens)))\<rparr>)"
proof -
  let ?f = "\<lambda>t. size_t (strtol pf t)"
  have a: "for_loop [0 ..< processorCount m] (\<lambda>j (Zs, num_z). do {
            t \<leftarrow> vec_get tokens j;
            let Zs = Zs @ [size_t (strtol pf t)];
            z \<leftarrow> vec_get Zs j;
            Some (Zs, size_t (num_z + z))
          }) ([], 0 :: nat)
         = Some (map ?f tokens, size_t (sum_list (map ?f tokens)))"
    using zdecomp_read_loop [of "processorCount m" tokens ?f] assms(1) by simp
  have b: "for_loop [0 ..< myProcessor m] (\<lambda>j my_start_z. do {
            z \<leftarrow> vec_get (map ?f tokens) j;
            Some (size_t (my_start_z + z))
          }) 0
         = Some (size_t (sum_list (take (myProcessor m) (map ?f tokens))))"
    by (rule zdecomp_start_loop) (use assms in simp)
  have c: "vec_get (map ?f tokens) (myProcessor m) = Some (map ?f tokens ! myProcessor m)"
    using assms by (simp add: vec_get_def)
  have total: "size_t (sum_list (map ?f xs)) = size_t (sum_list (map (strtol pf) xs))" for xs
    using size_t_sum_list [of 0 "strtol pf" xs] by simp
  have res: "zdecomp pf tokens m =
           Some (m\<lparr>numZ := size_t (sum_list (map ?f tokens)),
                   myNumZ := map ?f tokens ! myProcessor m,
                   myStartZ := size_t (sum_list (take (myProcessor m) (map ?f tokens)))\<rparr>)"
    unfolding zdecomp_def a
    using assms(1) by (simp add: assert_def b c)
  have d: "map ?f tokens ! myProcessor m = size_t (map (strtol pf) tokens ! myProcessor m)"
    using assms by simp
  have e: "take (myProcessor m) (map ?f tokens) = map ?f (take (myProcessor m) tokens)"
    by (simp add: take_map)
  show ?thesis
    unfolding res d e total by (simp add: take_map)
qed

lemma sum_list_take_le:
  fixes xs :: "nat list"
  shows "sum_list (take n xs) \<le> sum_list xs"
proof -
  have "sum_list (take n xs @ drop n xs) = sum_list (take n xs) + sum_list (drop n xs)"
    by (rule sum_list_append)
  then show ?thesis by simp
qed




subsection \<open>Loops that fill a vector\<close>

lemma take_Suc_update:
  "k < length v \<Longrightarrow> take (Suc k) (v[k := a]) = take k v @ [a]"
  by (simp add: take_Suc_conv_app_nth)

lemma put_eq:
  "put a (v, k) = (if k < length v then Some (v[k := a], Suc k) else None)"
  by (simp add: put_def vec_set_def)

lemma puts_append:
  "puts (xs @ ys) s = Option.bind (puts xs s) (puts ys)"
  by (induction xs arbitrary: s) (simp_all add: Option.bind_assoc cong: Option.bind_cong)

lemma puts_eq:
  "k \<le> length v \<Longrightarrow> puts xs (v, k) =
     (if k + length xs \<le> length v
      then Some (take k v @ xs @ drop (k + length xs) v, k + length xs) else None)"
proof (induction xs arbitrary: v k)
  case Nil
  then show ?case by simp
next
  case (Cons a xs)
  show ?case
  proof (cases "k < length v")
    case True
    then show ?thesis
      by (simp add: put_eq Cons.IH take_Suc_update)
  next
    case False
    then show ?thesis by (simp add: put_eq)
  qed
qed

lemma for_loop_writer:
  assumes nil: "\<And>s. W [] s = Some s"
    and app: "\<And>xs ys s. W (xs @ ys) s = Option.bind (W xs s) (W ys)"
    and body: "\<And>i s. i \<in> set js \<Longrightarrow> body i s = W (g i) s"
  shows "for_loop js body s = W (concat (map g js)) s"
  using body
proof (induction js arbitrary: s)
  case Nil
  show ?case by (simp add: nil)
next
  case (Cons j js)
  have "for_loop js body t = W (concat (map g js)) t" for t
    by (rule Cons.IH) (simp add: Cons.prems)
  then have "for_loop js body = W (concat (map g js))" by (rule ext)
  then show ?case by (simp add: app Cons.prems)
qed

lemma for_loop_puts:
  assumes "\<And>i s. i \<in> set js \<Longrightarrow> body i s = puts (g i) s"
  shows "for_loop js body s = puts (concat (map g js)) s"
  by (rule for_loop_writer [where W = puts]) (simp_all add: puts_append assms)

lemma puts_all:
  "length xs = length v \<Longrightarrow> puts xs (v, 0) = Some (xs, length xs)"
  by (simp add: puts_eq)

lemma length_resize [simp]: "length (resize n z v) = n"
  by (simp add: resize_def)

lemma for_loop_fill_prefix:
  assumes "k \<le> length v"
  shows "for_loop [0 ..< k] (\<lambda>i v. vec_set v i (f i)) v = Some (map f [0 ..< k] @ drop k v)"
  using assms
proof (induction k)
  case 0
  show ?case by simp
next
  case (Suc k)
  then have k: "k < length v" by simp
  have "(map f [0 ..< k] @ drop k v)[k := f k] = map f [0 ..< k] @ [f k] @ drop (Suc k) v"
    using k by (simp add: list_update_append Cons_nth_drop_Suc [symmetric])
  with Suc.IH k show ?case
    by (simp add: for_loop_snoc vec_set_def)
qed

lemma for_loop_fill:
  "length v = n \<Longrightarrow> for_loop [0 ..< n] (\<lambda>i v. vec_set v i (f i)) v = Some (map f [0 ..< n])"
  using for_loop_fill_prefix [of n v f] by simp

subsection \<open>Node identifiers\<close>

lemma identifier_conversion:
  "static_cast_int (size_t (size_t a + i + 1)) = static_cast_int (a + i + 1)"
proof -
  have "size_t (size_t a + (i + 1)) = size_t (a + (i + 1))" by (rule size_t_add_left)
  then have "size_t (size_t a + i + 1) = size_t (a + i + 1)" by (simp only: add.assoc)
  then show ?thesis by (simp only: static_cast_int_size_t)
qed

lemma identifier_offset:
  "static_cast_int (size_t a + i + 1) = static_cast_int (a + i + 1)"
  using identifier_conversion [of a i] by (simp only: static_cast_int_size_t)

lemma layer_identifiers:
  assumes "a + n < 2 ^ 31"
  shows "map (\<lambda>i. static_cast_int (a + i + 1)) [0 ..< n] = map (\<lambda>i. int (a + i + 1)) [0 ..< n]"
proof (rule map_cong [OF refl])
  fix i
  assume "i \<in> set [0 ..< n]"
  with assms have "a + i + 1 < 2 ^ 31" by simp
  then show "static_cast_int (a + i + 1) = int (a + i + 1)"
    by (rule static_cast_int_small)
qed

lemma first_of_map_upt: "0 < n \<Longrightarrow> map f [0 ..< n] ! 0 = f 0"
  by simp

lemma node_map_eq:
  "node_map m map0 =
     Some (map (\<lambda>i. static_cast_int (myStartZ m * (numX m + 1) * (numY m + 1) + i + 1))
             [0 ..< size_t (node_count_proc m)])"
  unfolding node_map_def Let_def identifier_conversion
  by (rule for_loop_fill) simp

lemma index_bound:
  fixes a b c :: nat
  assumes "l < c" and "i < b" and "j < a"
  shows "l * (a * b) + i * a + j < a * b * c"
proof -
  have "i * a + j < Suc i * a" using assms(3) by simp
  also have "\<dots> \<le> b * a" using assms(2) by (intro mult_le_mono1) simp
  finally have "l * (a * b) + (i * a + j) < Suc l * (a * b)" by (simp add: mult.commute)
  also have "\<dots> \<le> c * (a * b)" using assms(1) by (intro mult_le_mono1) simp
  finally show ?thesis by (simp add: mult.commute add.assoc)
qed

text \<open>
  Claim C6, amended. When the largest node identifier of the slab,
  \<open>(myStartZ+myNumZ+1)*(numX+1)*(numY+1)\<close>, is at most \<open>2^31-1\<close>, the largest \<open>int\<close>:
  \<open>node_map\<close> returns \<open>node_count_proc() = (numX+1)*(numY+1)*(myNumZ+1)\<close> entries,
  whatever the vector held; entry \<open>k\<close> is \<open>myStartZ*(numX+1)*(numY+1) + k + 1\<close>. So the
  node of the local layer \<open>l\<close> (global layer \<open>myStartZ + l\<close>), row \<open>i\<close> and column \<open>j\<close>
  has the identifier \<open>(myStartZ+l)*(numX+1)*(numY+1) + i*(numX+1) + j + 1\<close>.
\<close>

theorem node_map_ids:
  assumes "(myStartZ m + myNumZ m + 1) * (numX m + 1) * (numY m + 1) < 2 ^ 31"
  shows "\<exists>ids. node_map m map0 = Some ids
        \<and> length ids = node_count_proc m
        \<and> node_count_proc m = (numX m + 1) * (numY m + 1) * (myNumZ m + 1)
        \<and> (\<forall>k<node_count_proc m.
              ids ! k = int (myStartZ m * (numX m + 1) * (numY m + 1) + k + 1))
        \<and> (\<forall>l i j. l \<le> myNumZ m \<and> i \<le> numY m \<and> j \<le> numX m \<longrightarrow>
              ids ! (l * ((numX m + 1) * (numY m + 1)) + i * (numX m + 1) + j)
              = int ((myStartZ m + l) * (numX m + 1) * (numY m + 1) + i * (numX m + 1) + j + 1))"
proof -
  let ?ids = "map (\<lambda>i. int (myStartZ m * (numX m + 1) * (numY m + 1) + i + 1))
                [0 ..< node_count_proc m]"
  have largest: "myStartZ m * (numX m + 1) * (numY m + 1) + node_count_proc m
                 = (myStartZ m + myNumZ m + 1) * (numX m + 1) * (numY m + 1)"
    by (simp add: node_count_proc_def algebra_simps)
  with assms have count: "node_count_proc m < 2 ^ 31" by simp
  then have "node_count_proc m < 2 ^ 64"
    by (rule less_trans) simp
  then have reduced: "size_t (node_count_proc m) = node_count_proc m"
    by (rule size_t_small)
  have fits: "map (\<lambda>i. static_cast_int (myStartZ m * (numX m + 1) * (numY m + 1) + i + 1))
                [0 ..< node_count_proc m] = ?ids"
    by (rule layer_identifiers) (use largest assms in simp)
  have layer: "?ids ! (l * ((numX m + 1) * (numY m + 1)) + i * (numX m + 1) + j)
              = int ((myStartZ m + l) * (numX m + 1) * (numY m + 1) + i * (numX m + 1) + j + 1)"
    if "l \<le> myNumZ m" "i \<le> numY m" "j \<le> numX m" for l i j
  proof -
    have "l * ((numX m + 1) * (numY m + 1)) + i * (numX m + 1) + j
          < (numX m + 1) * (numY m + 1) * (myNumZ m + 1)"
      by (rule index_bound) (use that in simp_all)
    then have "l * ((numX m + 1) * (numY m + 1)) + i * (numX m + 1) + j < node_count_proc m"
      by (simp only: node_count_proc_def)
    then have "?ids ! (l * ((numX m + 1) * (numY m + 1)) + i * (numX m + 1) + j)
          = int (myStartZ m * (numX m + 1) * (numY m + 1)
                 + (l * ((numX m + 1) * (numY m + 1)) + i * (numX m + 1) + j) + 1)"
      by simp
    also have "myStartZ m * (numX m + 1) * (numY m + 1)
                 + (l * ((numX m + 1) * (numY m + 1)) + i * (numX m + 1) + j) + 1
          = (myStartZ m + l) * (numX m + 1) * (numY m + 1) + i * (numX m + 1) + j + 1"
      by (simp add: algebra_simps)
    finally show ?thesis .
  qed
  have "node_map m map0 = Some ?ids"
    unfolding node_map_eq reduced fits ..
  moreover have "length ?ids = node_count_proc m" by simp
  moreover have "node_count_proc m = (numX m + 1) * (numY m + 1) * (myNumZ m + 1)"
    by (simp add: node_count_proc_def)
  moreover have "\<forall>k<node_count_proc m.
              ?ids ! k = int (myStartZ m * (numX m + 1) * (numY m + 1) + k + 1)"
    by simp
  ultimately show ?thesis using layer by blast
qed

text \<open>Rank 1 of 2 of a 2 x 2 x 4 mesh: the 27 nodes of the layers 2 to 4.\<close>

theorem node_map_ids_witness:
  "\<exists>m ids. GeneratedMesh real_platform 2 2 4 2 1 = Some m
         \<and> (myStartZ m + myNumZ m + 1) * (numX m + 1) * (numY m + 1) < 2 ^ 31
         \<and> node_map m [] = Some ids \<and> length ids = 27
         \<and> ids ! 0 = 19 \<and> ids ! 26 = 45 \<and> ids ! 13 = 32"
proof -
  from GeneratedMesh_fields [of 2 4 real_platform 2 2 1] obtain m where
    m: "GeneratedMesh real_platform 2 2 4 2 1 = Some m" "numX m = 2" "numY m = 2"
      "myNumZ m = 2" "myStartZ m = 2"
    by auto
  have h: "(myStartZ m + myNumZ m + 1) * (numX m + 1) * (numY m + 1) < 2 ^ 31"
    by (simp add: m)
  from node_map_ids [OF h, of "[]"] obtain ids where
    ids: "node_map m [] = Some ids" "length ids = node_count_proc m"
      "node_count_proc m = (numX m + 1) * (numY m + 1) * (myNumZ m + 1)"
      "\<forall>k<node_count_proc m. ids ! k = int (myStartZ m * (numX m + 1) * (numY m + 1) + k + 1)"
      "\<forall>l i j. l \<le> myNumZ m \<and> i \<le> numY m \<and> j \<le> numX m \<longrightarrow>
              ids ! (l * ((numX m + 1) * (numY m + 1)) + i * (numX m + 1) + j)
              = int ((myStartZ m + l) * (numX m + 1) * (numY m + 1) + i * (numX m + 1) + j + 1)"
    by blast
  have n: "node_count_proc m = 27" using ids(3) m by simp
  from ids(4) n m have a: "ids ! 0 = 19" "ids ! 26 = 45" by simp_all
  from ids(5) [rule_format, of 1 1 1] m have b: "ids ! 13 = 32" by simp
  from ids(2) n have len: "length ids = 27" by simp
  from m(1) h ids(1) len a b show ?thesis by blast
qed

text \<open>
  The claim as it was stated, for every valid partition, fails on the last rank of the
  \<open>1290^3\<close> mesh on 1290 processors: the first node of the slab has the identifier
  \<open>1289 * 1291 * 1291 + 1 = 2148351810\<close>, which is larger than \<open>2^31-1\<close>, and entry 0
  of the node map is \<open>2148351810 - 2^32\<close>.
\<close>

theorem node_map_wraps:
  "Option.bind (GeneratedMesh real_platform 1290 1290 1290 1290 1289)
     (\<lambda>m. Option.bind (node_map m [])
        (\<lambda>ids. Some (ids ! 0, int (myStartZ m * (numX m + 1) * (numY m + 1) + 0 + 1))))
   = Some (- 2146615486, 2148351810)"
proof -
  from GeneratedMesh_fields [of 1290 1290 real_platform 1290 1290 1289] obtain m where
    m: "GeneratedMesh real_platform 1290 1290 1290 1290 1289 = Some m" "numX m = 1290"
      "numY m = 1290" "myNumZ m = 1" "myStartZ m = 1289"
    by auto
  have count: "size_t (node_count_proc m) = 3333362"
    by (simp add: node_count_proc_def m size_t_eq)
  have "map (\<lambda>i. static_cast_int (myStartZ m * (numX m + 1) * (numY m + 1) + i + 1))
          [0 ..< 3333362] ! 0
        = static_cast_int (myStartZ m * (numX m + 1) * (numY m + 1) + 0 + 1)"
    by (rule first_of_map_upt) simp
  also have "\<dots> = - 2146615486"
    by (simp add: m static_cast_int_eq)
  finally show ?thesis
    unfolding m(1) Option.bind_lunit node_map_eq count
    by (simp add: m(2-))
qed

subsection \<open>The node communication map\<close>

lemma communication_loop:
  assumes "j + length js \<le> length mp" and "j + length js \<le> length pr"
  shows "for_loop js (\<lambda>i (mp, pr, j). do {
             mp \<leftarrow> vec_set mp j (f i);
             pr \<leftarrow> vec_set pr j c;
             Some (mp, pr, j + 1)
           }) (mp, pr, j)
         = Some (take j mp @ map f js @ drop (j + length js) mp,
                 take j pr @ replicate (length js) c @ drop (j + length js) pr,
                 j + length js)"
  using assms
proof (induction js arbitrary: mp pr j)
  case Nil
  then show ?case by simp
next
  case (Cons i js)
  then have j: "j < length mp" "j < length pr" by simp_all
  have "for_loop js (\<lambda>i (mp, pr, j). do {
             mp \<leftarrow> vec_set mp j (f i);
             pr \<leftarrow> vec_set pr j c;
             Some (mp, pr, j + 1)
           }) (mp[j := f i], pr[j := c], Suc j)
         = Some (take (Suc j) (mp[j := f i]) @ map f js @ drop (Suc j + length js) (mp[j := f i]),
                 take (Suc j) (pr[j := c]) @ replicate (length js) c
                   @ drop (Suc j + length js) (pr[j := c]),
                 Suc j + length js)"
    by (rule Cons.IH) (use Cons.prems in simp_all)
  with j show ?case
    by (simp add: vec_set_def take_Suc_update)
qed

lemma communication_loop_upt:
  assumes "j + n \<le> length mp" and "j + n \<le> length pr"
  shows "for_loop [0 ..< n] (\<lambda>i (mp, pr, j). do {
             mp \<leftarrow> vec_set mp j (f i);
             pr \<leftarrow> vec_set pr j c;
             Some (mp, pr, j + 1)
           }) (mp, pr, j)
         = Some (take j mp @ map f [0 ..< n] @ drop (j + n) mp,
                 take j pr @ replicate n c @ drop (j + n) pr,
                 j + n)"
  using communication_loop [of j "[0 ..< n]" mp pr f c] assms by simp

lemma node_communication_map_eq:
  assumes "(numX m + 1) * (numY m + 1) < 2 ^ 63"
  shows "node_communication_map m map0 proc0 =
     Some (if myProcessor m = 0 \<and> myProcessor m + 1 = processorCount m
           then (resize ((numX m + 1) * (numY m + 1)) 0 map0,
                 resize ((numX m + 1) * (numY m + 1)) 0 proc0)
           else ((if myProcessor m \<noteq> 0
                  then map (\<lambda>i. static_cast_int (myStartZ m * (numX m + 1) * (numY m + 1) + i + 1))
                         [0 ..< (numX m + 1) * (numY m + 1)]
                  else [])
                 @ (if myProcessor m + 1 \<noteq> processorCount m
                    then map (\<lambda>i. static_cast_int
                                    ((myStartZ m + myNumZ m) * (numX m + 1) * (numY m + 1) + i + 1))
                           [0 ..< (numX m + 1) * (numY m + 1)]
                    else []),
                 (if myProcessor m \<noteq> 0
                  then replicate ((numX m + 1) * (numY m + 1))
                         (static_cast_int (size_t_minus (myProcessor m) 1))
                  else [])
                 @ (if myProcessor m + 1 \<noteq> processorCount m
                    then replicate ((numX m + 1) * (numY m + 1))
                           (static_cast_int (myProcessor m + 1))
                    else [])))"
proof -
  define A where "A = (numX m + 1) * (numY m + 1)"
  define f where "f = (\<lambda>i. static_cast_int (myStartZ m * (numX m + 1) * (numY m + 1) + i + 1))"
  define g where "g = (\<lambda>i. static_cast_int
                              ((myStartZ m + myNumZ m) * (numX m + 1) * (numY m + 1) + i + 1))"
  define below where "below = static_cast_int (size_t_minus (myProcessor m) 1)"
  define above where "above = static_cast_int (myProcessor m + 1)"
  define body where "body = (\<lambda>(c :: int) (h :: nat \<Rightarrow> int) (i :: nat) (mp, pr, j). do {
             mp \<leftarrow> vec_set mp j (h i);
             pr \<leftarrow> vec_set pr j c;
             Some (mp, pr, j + 1)
           })"
  from assms have A: "A < 2 ^ 63" by (simp only: A_def)
  then have "A < 2 ^ 64" by (rule less_trans) simp
  then have one: "size_t A = A" by (rule size_t_small)
  from A have "A * 2 < 2 ^ 64" by simp
  then have two: "size_t (A * 2) = A * 2" by (rule size_t_small)
  have loop: "for_loop [0 ..< A] (body c h) (mp, pr, j)
         = Some (take j mp @ map h [0 ..< A] @ drop (j + A) mp,
                 take j pr @ replicate A c @ drop (j + A) pr, j + A)"
    if "j + A \<le> length mp" "j + A \<le> length pr" for c h mp pr j
    unfolding body_def using that by (rule communication_loop_upt)
  have unfold: "node_communication_map m map0 proc0 =
     (let count = (if myProcessor m \<noteq> 0 \<and> myProcessor m + 1 \<noteq> processorCount m
                   then A * 2 else A)
      in Option.bind
           (if myProcessor m \<noteq> 0
            then for_loop [0 ..< A] (body below f)
                   (resize count 0 map0, resize count 0 proc0, 0)
            else Some (resize count 0 map0, resize count 0 proc0, 0))
           (\<lambda>s. Option.bind
                  (if myProcessor m + 1 \<noteq> processorCount m
                   then for_loop [0 ..< A] (body above g) s
                   else Some s)
                  (\<lambda>(mp, pr, j). Some (mp, pr))))"
    unfolding node_communication_map_def Let_def static_cast_int_size_t identifier_offset
      A_def [symmetric] one two
    unfolding A_def f_def g_def body_def below_def above_def
    by (simp only: Let_def)
  have result: "node_communication_map m map0 proc0 =
     Some (if myProcessor m = 0 \<and> myProcessor m + 1 = processorCount m
           then (resize A 0 map0, resize A 0 proc0)
           else ((if myProcessor m \<noteq> 0 then map f [0 ..< A] else [])
                 @ (if myProcessor m + 1 \<noteq> processorCount m then map g [0 ..< A] else []),
                 (if myProcessor m \<noteq> 0 then replicate A below else [])
                 @ (if myProcessor m + 1 \<noteq> processorCount m then replicate A above else [])))"
  proof (cases "myProcessor m = 0")
    case first: True
    show ?thesis
    proof (cases "myProcessor m + 1 = processorCount m")
      case True
      with first show ?thesis by (simp add: unfold)
    next
      case False
      with first show ?thesis by (simp add: unfold loop)
    qed
  next
    case inner: False
    show ?thesis
    proof (cases "myProcessor m + 1 = processorCount m")
      case True
      with inner show ?thesis by (simp add: unfold loop)
    next
      case False
      with inner show ?thesis by (simp add: unfold loop)
    qed
  qed
  then show ?thesis
    unfolding A_def f_def g_def below_def above_def .
qed

lemma node_communication_map_fits:
  assumes ids: "(myStartZ m + myNumZ m + 1) * (numX m + 1) * (numY m + 1) < 2 ^ 31"
    and rank: "myProcessor m + 1 < 2 ^ 31"
  shows "node_communication_map m map0 proc0 =
     Some (if myProcessor m = 0 \<and> myProcessor m + 1 = processorCount m
           then (resize ((numX m + 1) * (numY m + 1)) 0 map0,
                 resize ((numX m + 1) * (numY m + 1)) 0 proc0)
           else ((if myProcessor m \<noteq> 0
                  then map (\<lambda>i. int (myStartZ m * (numX m + 1) * (numY m + 1) + i + 1))
                         [0 ..< (numX m + 1) * (numY m + 1)]
                  else [])
                 @ (if myProcessor m + 1 \<noteq> processorCount m
                    then map (\<lambda>i. int ((myStartZ m + myNumZ m) * (numX m + 1) * (numY m + 1) + i + 1))
                           [0 ..< (numX m + 1) * (numY m + 1)]
                    else []),
                 (if myProcessor m \<noteq> 0
                  then replicate ((numX m + 1) * (numY m + 1)) (int (myProcessor m - 1))
                  else [])
                 @ (if myProcessor m + 1 \<noteq> processorCount m
                    then replicate ((numX m + 1) * (numY m + 1)) (int (myProcessor m + 1))
                    else [])))"
proof -
  define A where "A = (numX m + 1) * (numY m + 1)"
  define s where "s = myStartZ m"
  define n where "n = myNumZ m"
  from ids have top: "(s + n) * A + A < 2 ^ 31"
    by (simp add: A_def s_def n_def algebra_simps)
  have "s * A + A \<le> (s + n) * A + A" by (simp add: algebra_simps)
  from this top have bottom: "s * A + A < 2 ^ 31" by (rule le_less_trans)
  from top have "A < 2 ^ 31" by simp
  then have "A < 2 ^ 63" by (rule less_trans) simp
  then have size: "(numX m + 1) * (numY m + 1) < 2 ^ 63" by (simp only: A_def)
  have f: "map (\<lambda>i. static_cast_int (myStartZ m * (numX m + 1) * (numY m + 1) + i + 1))
             [0 ..< (numX m + 1) * (numY m + 1)]
           = map (\<lambda>i. int (myStartZ m * (numX m + 1) * (numY m + 1) + i + 1))
             [0 ..< (numX m + 1) * (numY m + 1)]"
    by (rule layer_identifiers) (simp only: mult.assoc bottom [unfolded A_def s_def])
  have g: "map (\<lambda>i. static_cast_int ((myStartZ m + myNumZ m) * (numX m + 1) * (numY m + 1) + i + 1))
             [0 ..< (numX m + 1) * (numY m + 1)]
           = map (\<lambda>i. int ((myStartZ m + myNumZ m) * (numX m + 1) * (numY m + 1) + i + 1))
             [0 ..< (numX m + 1) * (numY m + 1)]"
    by (rule layer_identifiers) (simp only: mult.assoc top [unfolded A_def s_def n_def])
  have above: "static_cast_int (myProcessor m + 1) = int (myProcessor m + 1)"
    using rank by (rule static_cast_int_small)
  have below: "static_cast_int (size_t_minus (myProcessor m) 1) = int (myProcessor m - 1)"
    if "myProcessor m \<noteq> 0"
  proof -
    from that have "size_t_minus (myProcessor m) 1 = size_t (myProcessor m - 1)"
      by (intro size_t_minus_le) simp
    moreover from rank have "myProcessor m - 1 < 2 ^ 31" by simp
    ultimately show ?thesis
      by (simp only: static_cast_int_size_t static_cast_int_small)
  qed
  show ?thesis
  proof (cases "myProcessor m = 0")
    case True
    then show ?thesis
      unfolding node_communication_map_eq [OF size] f g above by simp
  next
    case False
    show ?thesis
      unfolding node_communication_map_eq [OF size] f g above below [OF False] ..
  qed
qed




subsection \<open>The 2 x 2 x 2 mesh on one processor\<close>

lemma scenario_connectivity:
  "Option.bind (GeneratedMesh pf 2 2 2 1 0) (\<lambda>m. connectivity m 1 []) =
     Some [1, 2, 5, 4, 10, 11, 14, 13, 2, 3, 6, 5, 11, 12, 15, 14,
           4, 5, 8, 7, 13, 14, 17, 16, 5, 6, 9, 8, 14, 15, 18, 17,
           10, 11, 14, 13, 19, 20, 23, 22, 11, 12, 15, 14, 20, 21, 24, 23,
           13, 14, 17, 16, 22, 23, 26, 25, 14, 15, 18, 17, 23, 24, 27, 26]"
  by code_simp

lemma scenario_counts:
  "Option.bind (GeneratedMesh pf 2 2 2 1 0) (\<lambda>m. Some (node_count m)) = Some 27"
  "Option.bind (GeneratedMesh pf 2 2 2 1 0) element_count = Some 8"
  by code_simp+

text \<open>
  Claim C7. The 2 x 2 x 2 mesh on one processor, with no shell block and no rotation, has
  27 nodes and 8 elements, and \<open>connectivity(1)\<close> lists the nodes
  1, 2, 5, 4, 10, 11, 14, 13 for the first of its eight hexahedra.
\<close>

theorem scenario_2x2x2:
  "\<exists>m connect. GeneratedMesh pf 2 2 2 1 0 = Some m
     \<and> shellBlocks m = [] \<and> \<not> doRotation m
     \<and> node_count m = 27
     \<and> element_count m = Some 8
     \<and> connectivity m 1 [] = Some connect
     \<and> length connect = 8 * 8
     \<and> take 8 connect = [1, 2, 5, 4, 10, 11, 14, 13]"
proof -
  from GeneratedMesh_fields [of 1 2 pf 2 2 0] obtain m where
    m: "GeneratedMesh pf 2 2 2 1 0 = Some m" "shellBlocks m = []" "doRotation m = False"
    by auto
  from scenario_connectivity [of pf] scenario_counts [of pf] m show ?thesis
    by simp
qed

subsection \<open>The bounds of the element surface map\<close>

lemma for_loop_counted:
  fixes pos cap :: "'s \<Rightarrow> nat"
  assumes body: "\<And>i s. i \<in> set js \<Longrightarrow> pos s \<le> cap s \<Longrightarrow>
      (if pos s + d \<le> cap s
       then \<exists>s'. body i s = Some s' \<and> pos s' = pos s + d \<and> cap s' = cap s
       else body i s = None)"
    and start: "pos s \<le> cap s"
  shows "if pos s + d * length js \<le> cap s
         then \<exists>s'. for_loop js body s = Some s' \<and> pos s' = pos s + d * length js \<and> cap s' = cap s
         else for_loop js body s = None"
  using body start
proof (induction js arbitrary: s)
  case Nil
  then show ?case by simp
next
  case (Cons i js)
  show ?case
  proof (cases "pos s + d \<le> cap s")
    case True
    with Cons.prems(1) [of i s] Cons.prems(2) obtain s1 where
      s1: "body i s = Some s1" "pos s1 = pos s + d" "cap s1 = cap s"
      by auto
    have "if pos s1 + d * length js \<le> cap s1
         then \<exists>s'. for_loop js body s1 = Some s' \<and> pos s' = pos s1 + d * length js \<and> cap s' = cap s1
         else for_loop js body s1 = None"
      by (rule Cons.IH) (use Cons.prems(1) s1 True in auto)
    with s1 show ?thesis by (auto simp: add.assoc)
  next
    case False
    with Cons.prems(1) [of i s] Cons.prems(2) have "body i s = None" by auto
    moreover from False have "\<not> pos s + d * length (i # js) \<le> cap s" by simp
    ultimately show ?thesis by simp
  qed
qed

lemma surface_entry_counted:
  "if 2 * snd s + 2 \<le> length (fst s)
   then \<exists>s'. surface_entry elem face s = Some s' \<and> 2 * snd s' = 2 * snd s + 2
             \<and> length (fst s') = length (fst s)
   else surface_entry elem face s = None"
  by (cases s) (auto simp: surface_entry_def vec_set_def)

lemma side_loops:
  assumes body: "\<And>k j. body k j = surface_entry (elem k j) face"
  shows "(\<exists>s'. for_loop [0 ..< n] (\<lambda>k. for_loop [0 ..< w] (body k)) (mp, 0) = Some s')
         \<longleftrightarrow> 2 * (w * n) \<le> length mp"
proof -
  let ?pos = "\<lambda>s :: int list \<times> nat. 2 * snd s"
  let ?cap = "\<lambda>s :: int list \<times> nat. length (fst s)"
  have inner: "if ?pos s + 2 * w \<le> ?cap s
       then \<exists>s'. for_loop [0 ..< w] (body k) s = Some s' \<and> ?pos s' = ?pos s + 2 * w \<and> ?cap s' = ?cap s
       else for_loop [0 ..< w] (body k) s = None" if "?pos s \<le> ?cap s" for k s
  proof -
    have b: "if ?pos t + 2 \<le> ?cap t
       then \<exists>s'. body k j t = Some s' \<and> ?pos s' = ?pos t + 2 \<and> ?cap s' = ?cap t
       else body k j t = None" for j t
      unfolding body by (rule surface_entry_counted)
    from for_loop_counted [of "[0 ..< w]" ?pos ?cap 2 "body k" s, OF b that]
    show ?thesis by (simp cong: if_cong)
  qed
  have "if ?pos (mp, 0) + 2 * w * length [0 ..< n] \<le> ?cap (mp, 0)
       then \<exists>s'. for_loop [0 ..< n] (\<lambda>k. for_loop [0 ..< w] (body k)) (mp, 0) = Some s'
              \<and> ?pos s' = ?pos (mp, 0) + 2 * w * length [0 ..< n] \<and> ?cap s' = ?cap (mp, 0)
       else for_loop [0 ..< n] (\<lambda>k. for_loop [0 ..< w] (body k)) (mp, 0) = None"
  proof (rule for_loop_counted)
    fix i s
    assume "?pos s \<le> ?cap s"
    then show "if ?pos s + 2 * w \<le> ?cap s
       then \<exists>s'. for_loop [0 ..< w] (body i) s = Some s' \<and> ?pos s' = ?pos s + 2 * w \<and> ?cap s' = ?cap s
       else for_loop [0 ..< w] (body i) s = None"
      by (rule inner)
  next
    show "?pos (mp, 0) \<le> ?cap (mp, 0)" by simp
  qed
  then show ?thesis
    by (auto simp: mult.assoc split: if_splits)
qed


lemma element_surface_map_MX:
  "(\<exists>mp. element_surface_map m MX map0 = Some mp)
   \<longleftrightarrow> 2 * (numY m * numZ m) \<le> size_t (2 * size_t (numY m * myNumZ m))"
proof -
  have "(\<exists>s'. for_loop [0 ..< numZ m] (\<lambda>k. for_loop [0 ..< numY m] (\<lambda>j.
             surface_entry
               (static_cast_int (size_t (size_t (k * numX m * numY m + j * numX m) + 1))) 3))
           (resize (size_t (2 * size_t (numY m * myNumZ m))) 0 map0, 0) = Some s')
        \<longleftrightarrow> 2 * (numY m * numZ m)
            \<le> length (resize (size_t (2 * size_t (numY m * myNumZ m))) (0 :: int) map0)"
    by (rule side_loops) (rule refl)
  then show ?thesis
    by (auto simp: element_surface_map_def Let_def bind_eq_Some_conv)
qed

lemma element_surface_map_PX:
  "(\<exists>mp. element_surface_map m PX map0 = Some mp)
   \<longleftrightarrow> 2 * (numY m * numZ m) \<le> size_t (2 * size_t (numY m * myNumZ m))"
proof -
  have "(\<exists>s'. for_loop [0 ..< numZ m] (\<lambda>k. for_loop [0 ..< numY m] (\<lambda>j.
             surface_entry
               (static_cast_int
                  (size_t (size_t_minus (numX m) 1 + k * numX m * numY m + j * numX m + 1))) 1))
           (resize (size_t (2 * size_t (numY m * myNumZ m))) 0 map0, 0) = Some s')
        \<longleftrightarrow> 2 * (numY m * numZ m)
            \<le> length (resize (size_t (2 * size_t (numY m * myNumZ m))) (0 :: int) map0)"
    by (rule side_loops) (rule refl)
  then show ?thesis
    by (auto simp: element_surface_map_def Let_def bind_eq_Some_conv)
qed

lemma element_surface_map_MY:
  "(\<exists>mp. element_surface_map m MY map0 = Some mp)
   \<longleftrightarrow> 2 * (numX m * numZ m) \<le> size_t (2 * size_t (numX m * myNumZ m))"
proof -
  have "(\<exists>s'. for_loop [0 ..< numZ m] (\<lambda>k. for_loop [0 ..< numX m] (\<lambda>i.
             surface_entry (static_cast_int (size_t (k * numX m * numY m + i + 1))) 0))
           (resize (size_t (2 * size_t (numX m * myNumZ m))) 0 map0, 0) = Some s')
        \<longleftrightarrow> 2 * (numX m * numZ m)
            \<le> length (resize (size_t (2 * size_t (numX m * myNumZ m))) (0 :: int) map0)"
    by (rule side_loops) (rule refl)
  then show ?thesis
    by (auto simp: element_surface_map_def Let_def bind_eq_Some_conv)
qed

lemma element_surface_map_PY:
  "(\<exists>mp. element_surface_map m PY map0 = Some mp)
   \<longleftrightarrow> 2 * (numX m * numZ m) \<le> size_t (2 * size_t (numX m * myNumZ m))"
proof -
  have "(\<exists>s'. for_loop [0 ..< numZ m] (\<lambda>k. for_loop [0 ..< numX m] (\<lambda>i.
             surface_entry
               (static_cast_int
                  (size_t (size_t (size_t (size_t_minus (numY m) 1 * numX m)
                                   + k * numX m * numY m + i) + 1))) 2))
           (resize (size_t (2 * size_t (numX m * myNumZ m))) 0 map0, 0) = Some s')
        \<longleftrightarrow> 2 * (numX m * numZ m)
            \<le> length (resize (size_t (2 * size_t (numX m * myNumZ m))) (0 :: int) map0)"
    by (rule side_loops) (rule refl)
  then show ?thesis
    by (auto simp: element_surface_map_def Let_def bind_eq_Some_conv)
qed

lemma face_size:
  assumes "0 < w" and "n \<le> nz" and "w * nz < 2 ^ 63"
  shows "2 * (w * nz) \<le> size_t (2 * size_t (w * n)) \<longleftrightarrow> n = nz"
proof -
  from assms(2) have "w * n \<le> w * nz" by simp
  from this assms(3) have small: "w * n < 2 ^ 63" by (rule le_less_trans)
  then have "w * n < 2 ^ 64" by (rule less_trans) simp
  then have one: "size_t (w * n) = w * n" by (rule size_t_small)
  from small have "2 * (w * n) < 2 * 2 ^ 63" by (intro mult_strict_left_mono) simp_all
  then have "2 * (w * n) < 2 ^ 64" by simp
  then have two: "size_t (2 * (w * n)) = 2 * (w * n)" by (rule size_t_small)
  show ?thesis
    unfolding one two using assms(1,2) by auto
qed

lemma for_loop_skip:
  assumes "\<And>i s. i \<in> set js \<Longrightarrow> body i s = Some s"
  shows "for_loop js body s = Some s"
  using assms by (induction js) simp_all

subsection \<open>Generators for a single processor\<close>

lemma for_loop_invariant:
  assumes step: "\<And>i s s'. i \<in> set js \<Longrightarrow> I s \<Longrightarrow> body i s = Some s' \<Longrightarrow> I s'"
    and "I s" and "for_loop js body s = Some s'"
  shows "I s'"
  using assms
proof (induction js arbitrary: s)
  case Nil
  then show ?case by simp
next
  case (Cons j js)
  from Cons.prems(3) obtain s1 where s1: "body j s = Some s1" "for_loop js body s1 = Some s'"
    by (auto simp: bind_eq_Some_conv)
  from Cons.prems(1) [of j s s1] Cons.prems(2) s1(1) have s1_inv: "I s1" by simp
  show ?case
  proof (rule Cons.IH)
    show "I s1" by (rule s1_inv)
    show "for_loop js body s1 = Some s'" by (rule s1(2))
  next
    fix i t t'
    assume "i \<in> set js" "I t" "body i t = Some t'"
    then show "I t'" using Cons.prems(1) [of i t t'] by simp
  qed
qed

lemma initialize_single:
  assumes "initialize pf m = Some m'" and "processorCount m = 1"
  shows "processorCount m' = 1 \<and> myNumZ m' = numZ m'"
  using assms by (auto simp: initialize_def assert_def Let_def bind_eq_Some_conv split: if_splits)

lemma zdecomp_single:
  assumes "zdecomp pf tokens m = Some m'" and "processorCount m = 1"
  shows "processorCount m' = 1 \<and> myNumZ m' = numZ m'"
proof -
  from assms have len: "length tokens = 1"
    by (auto simp: zdecomp_def assert_def bind_eq_Some_conv split: if_splits)
  let ?f = "\<lambda>t. size_t (strtol pf t)"
  have a: "for_loop [0 ..< processorCount m] (\<lambda>j (Zs, num_z). do {
            t \<leftarrow> vec_get tokens j;
            let Zs = Zs @ [size_t (strtol pf t)];
            z \<leftarrow> vec_get Zs j;
            Some (Zs, size_t (num_z + z))
          }) ([], 0 :: nat)
         = Some (map ?f tokens, size_t (sum_list (map ?f tokens)))"
    using zdecomp_read_loop [of "processorCount m" tokens ?f] assms(2) len by simp
  from len obtain t where t: "tokens = [t]"
    by (cases tokens) simp_all
  from assms(1) show ?thesis
    unfolding zdecomp_def a
    by (auto simp: assert_def bind_eq_Some_conv vec_get_def t assms(2) split: if_splits)
qed

lemma set_rotation_partition:
  "processorCount (fst (set_rotation pf axis a m)) = processorCount m
   \<and> myNumZ (fst (set_rotation pf axis a m)) = myNumZ m
   \<and> numZ (fst (set_rotation pf axis a m)) = numZ m"
  by (simp add: set_rotation_def Let_def split: option.split prod.split)

lemma shell_fold_partition:
  "processorCount (fst (fold (\<lambda>c (m, out).
               case shell_location c of
                 Some loc \<Rightarrow> (add_shell_block loc m, out)
               | None \<Rightarrow> (m, out @ [ShellLocationError c])) arg (m, out))) = processorCount m
   \<and> myNumZ (fst (fold (\<lambda>c (m, out).
               case shell_location c of
                 Some loc \<Rightarrow> (add_shell_block loc m, out)
               | None \<Rightarrow> (m, out @ [ShellLocationError c])) arg (m, out))) = myNumZ m
   \<and> numZ (fst (fold (\<lambda>c (m, out).
               case shell_location c of
                 Some loc \<Rightarrow> (add_shell_block loc m, out)
               | None \<Rightarrow> (m, out @ [ShellLocationError c])) arg (m, out))) = numZ m"
  by (induction arg arbitrary: m out) (simp_all add: add_shell_block_def split: option.split)

lemma parse_option_opt:
  assumes "parse_option pf grp (m, out) = Some r"
  obtains opt where "vec_get (tokenize pf grp '':'') 0 = Some opt"
  using assms
  by (cases "vec_get (tokenize pf grp '':'') 0") (simp_all add: parse_option_def)

lemma parse_option_shell:
  assumes "vec_get (tokenize pf grp '':'') 0 = Some ''shell''"
  shows "parse_option pf grp (m, out) = do {
       arg \<leftarrow> vec_get (tokenize pf grp '':'') 1;
       Some (fold (\<lambda>c (m, out).
               case shell_location c of
                 Some loc \<Rightarrow> (add_shell_block loc m, out)
               | None \<Rightarrow> (m, out @ [ShellLocationError c])) arg (m, out))
     }"
  using assms by (simp add: parse_option_def)


lemma rotate_loop_partition:
  assumes "for_loop js (rotate_pair pf tokens) (m, out) = Some (m', out')"
    and "processorCount m = 1" and "myNumZ m = numZ m"
  shows "processorCount m' = 1 \<and> myNumZ m' = numZ m'"
proof -
  let ?I = "\<lambda>s :: 'a mesh \<times> 'a message list. processorCount (fst s) = 1 \<and> myNumZ (fst s) = numZ (fst s)"
  have "?I (m', out')"
  proof (rule for_loop_invariant [where I = ?I, OF _ _ assms(1)])
    show "?I (m, out)" using assms by simp
  next
    fix i s s'
    assume "?I s" and "rotate_pair pf tokens i s = Some s'"
    then show "?I s'"
      using set_rotation_partition [of pf _ _ "fst s"]
      by (cases s) (auto simp: rotate_pair_def bind_eq_Some_conv case_prod_beta Let_def)
  qed
  then show ?thesis by simp
qed

lemma shell_fold_result:
  assumes "fold (\<lambda>c (m, out).
               case shell_location c of
                 Some loc \<Rightarrow> (add_shell_block loc m, out)
               | None \<Rightarrow> (m, out @ [ShellLocationError c])) arg (m, out) = (m', out')"
  shows "processorCount m' = processorCount m \<and> myNumZ m' = myNumZ m \<and> numZ m' = numZ m"
  using shell_fold_partition [of arg m out] by (simp add: assms)

lemma eight_cases:
  obtains "x = a1" | "x = a2" | "x = a3" | "x = a4" | "x = a5" | "x = a6" | "x = a7" | "x = a8"
    | "x \<noteq> a1" "x \<noteq> a2" "x \<noteq> a3" "x \<noteq> a4" "x \<noteq> a5" "x \<noteq> a6" "x \<noteq> a7" "x \<noteq> a8"
  by blast

lemmas option_cases =
  eight_cases [of _ "''shell''" _ "''scale''" "''offset''" "''zdecomp''" "''bbox''" "''rotate''"
    "''help''" "''show''", case_names shell scale offset zdecomp bbox rotate hlp shown other]

lemma parse_option_single:
  assumes "parse_option pf grp (m, out) = Some (m', out')"
    and "processorCount m = 1" and "myNumZ m = numZ m"
  shows "processorCount m' = 1 \<and> myNumZ m' = numZ m'"
proof -
  from assms(1) obtain opt where opt: "vec_get (tokenize pf grp '':'') 0 = Some opt"
    by (rule parse_option_opt)
  show ?thesis
  proof (cases opt rule: option_cases)
    case shell
    with assms opt show ?thesis
      by (auto simp: parse_option_def Let_def bind_eq_Some_conv dest: shell_fold_result)
  next
    case scale
    with assms opt show ?thesis
      by (auto simp: parse_option_def Let_def bind_eq_Some_conv assert_def split: if_splits)
  next
    case offset
    with assms opt show ?thesis
      by (auto simp: parse_option_def Let_def bind_eq_Some_conv assert_def split: if_splits)
  next
    case zdecomp
    with assms opt show ?thesis
      using zdecomp_single [of pf _ m]
      by (auto simp: parse_option_def Let_def bind_eq_Some_conv)
  next
    case bbox
    with assms opt show ?thesis
      by (auto simp: parse_option_def Let_def bind_eq_Some_conv assert_def set_bbox_def
               split: if_splits)
  next
    case rotate
    with assms(1) opt obtain tokens where
      "for_loop (stride 0 (length tokens) 2) (rotate_pair pf tokens) (m, out) = Some (m', out')"
      by (auto simp: parse_option_def Let_def bind_eq_Some_conv)
    then show ?thesis using assms(2,3) by (rule rotate_loop_partition)
  next
    case hlp
    with assms opt show ?thesis
      by (auto simp: parse_option_def Let_def bind_eq_Some_conv)
  next
    case shown
    with assms opt show ?thesis
      by (auto simp: parse_option_def Let_def bind_eq_Some_conv)
  next
    case other
    with assms opt show ?thesis
      by (auto simp: parse_option_def Let_def bind_eq_Some_conv)
  qed
qed


lemma parse_options_single:
  assumes "parse_options pf groups (m, out) = Some (m', out')"
    and "processorCount m = 1" and "myNumZ m = numZ m"
  shows "processorCount m' = 1 \<and> myNumZ m' = numZ m'"
proof -
  let ?I = "\<lambda>s :: 'a mesh \<times> 'a message list. processorCount (fst s) = 1 \<and> myNumZ (fst s) = numZ (fst s)"
  have "?I (m', out')"
  proof (rule for_loop_invariant [where I = ?I, OF _ _ assms(1) [unfolded parse_options_def]])
    show "?I (m, out)" using assms by simp
  next
    fix i s s'
    assume inv: "?I s" and step: "vec_get groups i \<bind> (\<lambda>grp. parse_option pf grp s) = Some s'"
    from step obtain grp where "parse_option pf grp (fst s, snd s) = Some (fst s', snd s')"
      by (auto simp: bind_eq_Some_conv)
    then show "?I s'"
      using parse_option_single [of pf grp "fst s" "snd s" "fst s'" "snd s'"] inv by simp
  qed
  then show ?thesis by simp
qed

lemma GeneratedMesh_parameters_single:
  assumes "GeneratedMesh_parameters pf parameters 1 r = Some (m', out')"
  shows "processorCount m' = 1 \<and> myNumZ m' = numZ m'"
proof -
  from assms obtain m0 m where
    init: "initialize pf m0 = Some m" and m0: "processorCount m0 = 1"
    and opts: "parse_options pf (tokenize pf parameters ''|+'') (m, []) = Some (m', out')"
    by (auto simp: GeneratedMesh_parameters_def Let_def bind_eq_Some_conv members_def)
  from initialize_single [OF init m0] have "processorCount m = 1" "myNumZ m = numZ m"
    by simp_all
  with opts show ?thesis by (rule parse_options_single)
qed

lemma GeneratedMesh_single:
  assumes "GeneratedMesh pf nx ny nz 1 r = Some m"
  shows "processorCount m = 1 \<and> myNumZ m = numZ m"
  using assms initialize_single [of pf "members pf nx ny nz nz 1 r" m]
  by (simp add: GeneratedMesh_def members_def)

subsection \<open>The side faces\<close>

text \<open>
  Claim C10, amended. For a side face (\<open>MX\<close>, \<open>PX\<close>, \<open>MY\<close> or \<open>PY\<close>)
  \<open>element_surface_map\<close> resizes the vector to twice the shell count of this processor
  (\<open>2*numY*myNumZ\<close> or \<open>2*numX*myNumZ\<close>) and then writes two entries for each of the
  \<open>numZ\<close> layers of the whole mesh. On a generator with positive interval counts \<open>numX\<close>
  and \<open>numY\<close>, a slab inside the mesh (\<open>myNumZ \<le> numZ\<close>) and faces of fewer than \<open>2^63\<close>
  elements (so that twice the count is the size of a vector), every write is inside the
  vector, that is the function returns, exactly when \<open>myNumZ = numZ\<close>; otherwise a write
  is outside. A generator constructed for one processor, by either constructor, has
  \<open>myNumZ = numZ\<close>.
\<close>

theorem element_surface_map_side_bounds:
  assumes "loc = MX \<or> loc = PX \<or> loc = MY \<or> loc = PY"
    and "0 < numX m" and "0 < numY m" and "myNumZ m \<le> numZ m"
    and "numX m * numZ m < 2 ^ 63" and "numY m * numZ m < 2 ^ 63"
  shows "((\<exists>mp. element_surface_map m loc map0 = Some mp) \<longleftrightarrow> myNumZ m = numZ m)
       \<and> (GeneratedMesh pf nx ny nz 1 r = Some m1 \<longrightarrow> myNumZ m1 = numZ m1)
       \<and> (GeneratedMesh_parameters pf parameters 1 r = Some (m2, out) \<longrightarrow> myNumZ m2 = numZ m2)"
proof -
  have y: "2 * (numY m * numZ m) \<le> size_t (2 * size_t (numY m * myNumZ m))
           \<longleftrightarrow> myNumZ m = numZ m"
    using assms(3,4,6) by (rule face_size)
  have x: "2 * (numX m * numZ m) \<le> size_t (2 * size_t (numX m * myNumZ m))
           \<longleftrightarrow> myNumZ m = numZ m"
    using assms(2,4,5) by (rule face_size)
  from assms(1) have "(\<exists>mp. element_surface_map m loc map0 = Some mp) \<longleftrightarrow> myNumZ m = numZ m"
  proof (elim disjE)
    assume "loc = MX"
    then show ?thesis by (simp only: element_surface_map_MX y)
  next
    assume "loc = PX"
    then show ?thesis by (simp only: element_surface_map_PX y)
  next
    assume "loc = MY"
    then show ?thesis by (simp only: element_surface_map_MY x)
  next
    assume "loc = PY"
    then show ?thesis by (simp only: element_surface_map_PY x)
  qed
  then show ?thesis
    using GeneratedMesh_single [of pf nx ny nz r m1]
      GeneratedMesh_parameters_single [of pf parameters r m2 out]
    by blast
qed

text \<open>
  The \<open>MX\<close> face of a 2 x 2 x 4 mesh: on rank 1 of 2 a write is outside the vector, on a
  single processor all writes are inside.
\<close>

theorem element_surface_map_side_bounds_witness:
  "\<exists>m m' mp. GeneratedMesh real_platform 2 2 4 2 1 = Some m
       \<and> myNumZ m = 2 \<and> numZ m = 4
       \<and> element_surface_map m MX [] = None
       \<and> GeneratedMesh real_platform 2 2 4 1 0 = Some m'
       \<and> myNumZ m' = 4 \<and> numZ m' = 4
       \<and> element_surface_map m' MX [] = Some mp"
proof -
  from GeneratedMesh_fields [of 2 4 real_platform 2 2 1] obtain m where
    m: "GeneratedMesh real_platform 2 2 4 2 1 = Some m" "numX m = 2" "numY m = 2"
      "numZ m = 4" "myNumZ m = 2"
    by auto
  from GeneratedMesh_fields [of 1 4 real_platform 2 2 0] obtain m' where
    m': "GeneratedMesh real_platform 2 2 4 1 0 = Some m'" "numX m' = 2" "numY m' = 2"
      "numZ m' = 4" "myNumZ m' = 4"
    by auto
  have loc: "MX = MX \<or> MX = PX \<or> MX = MY \<or> MX = PY" by simp
  have a: "0 < numX m" "0 < numY m" "myNumZ m \<le> numZ m"
    "numX m * numZ m < 2 ^ 63" "numY m * numZ m < 2 ^ 63"
    by (simp_all add: m)
  have b: "0 < numX m'" "0 < numY m'" "myNumZ m' \<le> numZ m'"
    "numX m' * numZ m' < 2 ^ 63" "numY m' * numZ m' < 2 ^ 63"
    by (simp_all add: m')
  from element_surface_map_side_bounds [OF loc a, of "[]" real_platform 2 2 4 0 m' "[]" m' "[]",
    THEN conjunct1] m
  have none: "element_surface_map m MX [] = None" by auto
  from element_surface_map_side_bounds [OF loc b, of "[]" real_platform 2 2 4 0 m' "[]" m' "[]",
    THEN conjunct1] m'
  obtain mp where some: "element_surface_map m' MX [] = Some mp" by auto
  from m(1,4,5) m'(1,4,5) none some show ?thesis by blast
qed

text \<open>
  The claim as it was stated, for every generator, fails where a face has no element:
  on rank 1 of 2 of the 2 x 0 x 4 mesh the slab has 2 of the 4 layers, and
  \<open>element_surface_map\<close> returns for the \<open>MX\<close> face, as the inner loop over \<open>numY = 0\<close>
  rows writes nothing.
\<close>

theorem element_surface_map_no_rows:
  "Option.bind (GeneratedMesh real_platform 2 0 4 2 1)
     (\<lambda>m. Some (myNumZ m, numZ m, element_surface_map m MX []))
   = Some (2, 4, Some [])"
proof -
  from GeneratedMesh_fields [of 2 4 real_platform 2 0 1] obtain m where
    m: "GeneratedMesh real_platform 2 0 4 2 1 = Some m" "numX m = 2" "numY m = 0"
      "numZ m = 4" "myNumZ m = 2"
    by auto
  have loops: "for_loop [0 ..< numZ m] (\<lambda>k. for_loop [0 ..< numY m] (body k)) s = Some s"
    for body :: "nat \<Rightarrow> nat \<Rightarrow> int list \<times> nat \<Rightarrow> (int list \<times> nat) option" and s
    by (rule for_loop_skip) (simp add: m)
  have "element_surface_map m MX [] = Some []"
    by (simp add: element_surface_map_def Let_def loops) (simp add: m resize_def)
  with m show ?thesis by simp
qed

subsection \<open>Lists of blocks of one length\<close>

lemma length_concat_blocks:
  assumes "\<And>x. x \<in> set xs \<Longrightarrow> length (f x) = L"
  shows "length (concat (map f xs)) = length xs * L"
  using assms by (induction xs) simp_all

lemma nth_concat_blocks:
  assumes "\<And>x. x \<in> set xs \<Longrightarrow> length (f x) = L" and "i < length xs" and "j < L"
  shows "concat (map f xs) ! (i * L + j) = f (xs ! i) ! j"
  using assms
proof (induction xs arbitrary: i)
  case Nil
  then show ?case by simp
next
  case (Cons x xs)
  show ?case
  proof (cases i)
    case 0
    with Cons.prems show ?thesis by (simp add: nth_append)
  next
    case (Suc i')
    with Cons.prems have "concat (map f xs) ! (i' * L + j) = f (xs ! i') ! j"
      by (intro Cons.IH) simp_all
    with Suc Cons.prems(1) [of x] show ?thesis
      by (simp add: nth_append add.assoc)
  qed
qed

lemma concat_triples:
  "concat (map (\<lambda>(a, b, c). [a, b, c]) (concat (map f xs)))
   = concat (map (\<lambda>x. concat (map (\<lambda>(a, b, c). [a, b, c]) (f x))) xs)"
  by (induction xs) simp_all

lemma nth_triples:
  assumes "k < length ts"
  shows "concat (map (\<lambda>(a, b, c). [a, b, c]) ts) ! (3 * k) = fst (ts ! k)"
    and "concat (map (\<lambda>(a, b, c). [a, b, c]) ts) ! (3 * k + 1) = fst (snd (ts ! k))"
    and "concat (map (\<lambda>(a, b, c). [a, b, c]) ts) ! (3 * k + 2) = snd (snd (ts ! k))"
proof -
  have len: "\<And>t. t \<in> set ts \<Longrightarrow> length ((\<lambda>(a, b, c). [a, b, c]) t) = 3"
    by (simp add: case_prod_beta)
  have "concat (map (\<lambda>(a, b, c). [a, b, c]) ts) ! (k * 3 + 0) = (\<lambda>(a, b, c). [a, b, c]) (ts ! k) ! 0"
    by (rule nth_concat_blocks [OF len assms]) simp_all
  then show "concat (map (\<lambda>(a, b, c). [a, b, c]) ts) ! (3 * k) = fst (ts ! k)"
    by (simp add: case_prod_beta mult.commute)
  have "concat (map (\<lambda>(a, b, c). [a, b, c]) ts) ! (k * 3 + 1) = (\<lambda>(a, b, c). [a, b, c]) (ts ! k) ! 1"
    by (rule nth_concat_blocks [OF len assms]) simp_all
  then show "concat (map (\<lambda>(a, b, c). [a, b, c]) ts) ! (3 * k + 1) = fst (snd (ts ! k))"
    by (simp add: case_prod_beta mult.commute)
  have "concat (map (\<lambda>(a, b, c). [a, b, c]) ts) ! (k * 3 + 2) = (\<lambda>(a, b, c). [a, b, c]) (ts ! k) ! 2"
    by (rule nth_concat_blocks [OF len assms]) simp_all
  then show "concat (map (\<lambda>(a, b, c). [a, b, c]) ts) ! (3 * k + 2) = snd (snd (ts ! k))"
    by (simp add: case_prod_beta mult.commute)
qed

lemma length_triples:
  "length (concat (map (\<lambda>(a, b, c). [a, b, c]) ts)) = 3 * length ts"
  using length_concat_blocks [of ts "\<lambda>(a, b, c). [a, b, c]" 3]
  by (simp add: case_prod_beta)

lemma grid_length:
  "length (concat (map (\<lambda>m. concat (map (\<lambda>i. map (\<lambda>j. g m i j) [0 ..< a]) [0 ..< b])) [s ..< s + c]))
   = a * b * c"
proof -
  have row: "length (concat (map (\<lambda>i. map (\<lambda>j. g m i j) [0 ..< a]) [0 ..< b])) = b * a" for m
    using length_concat_blocks [of "[0 ..< b]" "\<lambda>i. map (\<lambda>j. g m i j) [0 ..< a]" a] by simp
  have "length (concat (map (\<lambda>m. concat (map (\<lambda>i. map (\<lambda>j. g m i j) [0 ..< a]) [0 ..< b])) [s ..< s + c]))
        = length [s ..< s + c] * (b * a)"
    by (rule length_concat_blocks) (rule row)
  then show ?thesis by (simp add: mult.commute mult.left_commute)
qed

lemma grid_nth:
  assumes "l < c" and "i < b" and "j < a"
  shows "concat (map (\<lambda>m. concat (map (\<lambda>i. map (\<lambda>j. g m i j) [0 ..< a]) [0 ..< b])) [s ..< s + c])
           ! ((l * b + i) * a + j) = g (s + l) i j"
proof -
  let ?row = "\<lambda>m i. map (\<lambda>j. g m i j) [0 ..< a]"
  let ?layer = "\<lambda>m. concat (map (?row m) [0 ..< b])"
  have layer_len: "length (?layer m) = b * a" for m
    using length_concat_blocks [of "[0 ..< b]" "?row m" a] by simp
  have inner: "i * a + j < b * a"
  proof -
    have "i * a + j < Suc i * a" using assms(3) by simp
    also have "\<dots> \<le> b * a" using assms(2) by (intro mult_le_mono1) simp
    finally show ?thesis .
  qed
  have "(l * b + i) * a + j = l * (b * a) + (i * a + j)"
    by (simp add: algebra_simps)
  then have "concat (map ?layer [s ..< s + c]) ! ((l * b + i) * a + j)
        = concat (map ?layer [s ..< s + c]) ! (l * (b * a) + (i * a + j))"
    by (rule arg_cong)
  also have "\<dots> = ?layer ([s ..< s + c] ! l) ! (i * a + j)"
    by (rule nth_concat_blocks) (use assms(1) inner layer_len in simp_all)
  also have "\<dots> = ?layer (s + l) ! (i * a + j)"
    using assms(1) by simp
  also have "\<dots> = ?row (s + l) ([0 ..< b] ! i) ! j"
    by (rule nth_concat_blocks) (use assms in simp_all)
  also have "\<dots> = g (s + l) i j"
    using assms by simp
  finally show ?thesis .
qed


subsection \<open>The interleaved coordinates\<close>

text \<open>
  The three loops of \<open>coordinates\<close> write the triples of the nodes one after the other,
  layer by layer and row by row; the rotation loop replaces each triple by its product
  with \<open>rotmat\<close>.
\<close>

lemma interleaved_fill:
  "for_loop [s ..< s + c] (\<lambda>m. for_loop [0 ..< b] (\<lambda>i. for_loop [0 ..< a] (\<lambda>j.
       puts [fx j, fy i, fz m]))) st
   = puts (concat (map (\<lambda>(a, b, c). [a, b, c])
        (concat (map (\<lambda>m. concat (map (\<lambda>i. map (\<lambda>j. (fx j, fy i, fz m)) [0 ..< a]) [0 ..< b]))
           [s ..< s + c])))) st"
proof -
  have row: "for_loop [0 ..< a] (\<lambda>j. puts [fx j, fy i, fz m]) t
      = puts (concat (map (\<lambda>j. [fx j, fy i, fz m]) [0 ..< a])) t" for i m t
    by (rule for_loop_puts) (rule refl)
  have layer: "for_loop [0 ..< b] (\<lambda>i. for_loop [0 ..< a] (\<lambda>j. puts [fx j, fy i, fz m])) t
      = puts (concat (map (\<lambda>i. concat (map (\<lambda>j. [fx j, fy i, fz m]) [0 ..< a])) [0 ..< b])) t"
    for m t
    by (rule for_loop_puts) (rule row)
  have "for_loop [s ..< s + c] (\<lambda>m. for_loop [0 ..< b] (\<lambda>i. for_loop [0 ..< a] (\<lambda>j.
       puts [fx j, fy i, fz m]))) st
      = puts (concat (map (\<lambda>m. concat (map (\<lambda>i. concat (map (\<lambda>j. [fx j, fy i, fz m]) [0 ..< a]))
                 [0 ..< b])) [s ..< s + c])) st"
    by (rule for_loop_puts) (rule layer)
  then show ?thesis
    by (simp add: concat_triples comp_def)
qed

lemma coordinates_fill:
  "for_loop [myStartZ mesh ..< myStartZ mesh + myNumZ mesh + 1] (\<lambda>m.
         for_loop [0 ..< numY mesh + 1] (\<lambda>i.
           for_loop [0 ..< numX mesh + 1] (\<lambda>j.
             puts [fx j, fy i, fz m]))) (resize (node_count_proc mesh * 3) z coord0, 0)
   = Some (concat (map (\<lambda>(a, b, c). [a, b, c])
        (concat (map (\<lambda>m. concat (map (\<lambda>i. map (\<lambda>j. (fx j, fy i, fz m))
           [0 ..< numX mesh + 1]) [0 ..< numY mesh + 1]))
           [myStartZ mesh ..< myStartZ mesh + (myNumZ mesh + 1)]))),
      node_count_proc mesh * 3)"
proof -
  let ?grid = "concat (map (\<lambda>m. concat (map (\<lambda>i. map (\<lambda>j. (fx j, fy i, fz m))
           [0 ..< numX mesh + 1]) [0 ..< numY mesh + 1]))
           [myStartZ mesh ..< myStartZ mesh + (myNumZ mesh + 1)])"
  have len: "length ?grid = node_count_proc mesh"
    unfolding node_count_proc_def by (rule grid_length)
  have "puts (concat (map (\<lambda>(a, b, c). [a, b, c]) ?grid)) (resize (node_count_proc mesh * 3) z coord0, 0)
        = Some (concat (map (\<lambda>(a, b, c). [a, b, c]) ?grid),
                length (concat (map (\<lambda>(a, b, c). [a, b, c]) ?grid)))"
    by (rule puts_all) (simp only: length_triples len length_resize mult.commute)
  then show ?thesis
    by (simp only: add.assoc interleaved_fill length_triples len mult.commute)
qed


lemma stride_eq:
  assumes "0 < d"
  shows "stride (d * a) (d * b) d = map (\<lambda>n. d * n) [a ..< b]"
proof (induction "b - a" arbitrary: a)
  case 0
  then have "\<not> d * a < d * b" by simp
  with 0 show ?case by (simp add: stride.simps [of "d * a"])
next
  case (Suc k)
  then have less: "a < b" and k: "k = b - Suc a" by simp_all
  from k have "stride (d * Suc a) (d * b) d = map (\<lambda>n. d * n) [Suc a ..< b]"
    by (rule Suc.hyps(1))
  then have "stride (d * a + d) (d * b) d = map (\<lambda>n. d * n) [Suc a ..< b]"
    by (simp add: add.commute)
  then show ?case
    using less assms by (simp add: stride.simps [of "d * a"] upt_conv_Cons)
qed

lemma rotate_interleaved:
  fixes r0 r1 r2 :: "'a \<Rightarrow> 'a \<Rightarrow> 'a \<Rightarrow> 'a"
  defines "body \<equiv> (\<lambda>i coord. do {
           xn \<leftarrow> vec_get coord (i + 0);
           yn \<leftarrow> vec_get coord (i + 1);
           zn \<leftarrow> vec_get coord (i + 2);
           coord \<leftarrow> vec_set coord (i + 0) (r0 xn yn zn);
           coord \<leftarrow> vec_set coord (i + 1) (r1 xn yn zn);
           vec_set coord (i + 2) (r2 xn yn zn)
         })"
  shows "for_loop (map (\<lambda>n. length pre + 3 * n) [0 ..< length ts]) body
           (pre @ concat (map (\<lambda>(a, b, c). [a, b, c]) ts))
         = Some (pre @ concat (map (\<lambda>(a, b, c). [a, b, c])
                   (map (\<lambda>(a, b, c). (r0 a b c, r1 a b c, r2 a b c)) ts)))"
proof (induction ts arbitrary: pre)
  case Nil
  show ?case by simp
next
  case (Cons t ts)
  obtain a b c where t: "t = (a, b, c)" by (cases t) auto
  let ?rest = "concat (map (\<lambda>(a, b, c). [a, b, c]) ts)"
  let ?pre = "pre @ [r0 a b c, r1 a b c, r2 a b c]"
  have step: "body (length pre) (pre @ [a, b, c] @ ?rest) = Some (?pre @ ?rest)"
    by (simp add: body_def vec_get_def vec_set_def nth_append list_update_append)
  have idx: "map (\<lambda>n. length pre + 3 * n) [0 ..< length (t # ts)]
        = length pre # map (\<lambda>n. length ?pre + 3 * n) [0 ..< length ts]"
    by (simp add: upt_conv_Cons map_Suc_upt [symmetric] del: upt_Suc)
  have "for_loop (map (\<lambda>n. length ?pre + 3 * n) [0 ..< length ts]) body (?pre @ ?rest)
        = Some (?pre @ concat (map (\<lambda>(a, b, c). [a, b, c])
                   (map (\<lambda>(a, b, c). (r0 a b c, r1 a b c, r2 a b c)) ts)))"
    by (rule Cons.IH)
  with step show ?case
    unfolding idx by (simp add: t)
qed

lemma coordinates_rotation:
  assumes "length ts = count"
  shows "for_loop (stride 0 (count * 3) 3) (\<lambda>i coord. do {
           xn \<leftarrow> vec_get coord (i + 0);
           yn \<leftarrow> vec_get coord (i + 1);
           zn \<leftarrow> vec_get coord (i + 2);
           coord \<leftarrow> vec_set coord (i + 0) (r0 xn yn zn);
           coord \<leftarrow> vec_set coord (i + 1) (r1 xn yn zn);
           vec_set coord (i + 2) (r2 xn yn zn)
         }) (concat (map (\<lambda>(a, b, c). [a, b, c]) ts))
         = Some (concat (map (\<lambda>(a, b, c). [a, b, c])
                   (map (\<lambda>(a, b, c). (r0 a b c, r1 a b c, r2 a b c)) ts)))"
proof -
  have "stride (3 * 0) (3 * count) 3 = map (\<lambda>n. 3 * n) [0 ..< count]"
    by (rule stride_eq) simp
  then have idx: "stride 0 (count * 3) 3 = map (\<lambda>n. length ([] :: 'a list) + 3 * n) [0 ..< length ts]"
    by (simp add: assms mult.commute)
  show ?thesis
    unfolding idx using rotate_interleaved [of "[]" ts r0 r1 r2] by simp
qed


lemma coordinates_eq:
  "coordinates pf mesh coord0 =
     Some (concat (map (\<lambda>(a, b, c). [a, b, c])
       ((if doRotation mesh
         then map (\<lambda>(xn, yn, zn). (rotated pf (rotmat mesh) 0 xn yn zn,
                                     rotated pf (rotmat mesh) 1 xn yn zn,
                                     rotated pf (rotmat mesh) 2 xn yn zn))
         else (\<lambda>ts. ts))
        (concat (map (\<lambda>m. concat (map (\<lambda>i. map (\<lambda>j.
            (d_add pf (d_mul pf (sclX mesh) (dbl pf j)) (offX mesh),
             d_add pf (d_mul pf (sclY mesh) (dbl pf i)) (offY mesh),
             d_add pf (d_mul pf (sclZ mesh) (dbl pf m)) (offZ mesh)))
           [0 ..< numX mesh + 1]) [0 ..< numY mesh + 1]))
           [myStartZ mesh ..< myStartZ mesh + (myNumZ mesh + 1)])))))"
proof -
  let ?grid = "concat (map (\<lambda>m. concat (map (\<lambda>i. map (\<lambda>j.
            (d_add pf (d_mul pf (sclX mesh) (dbl pf j)) (offX mesh),
             d_add pf (d_mul pf (sclY mesh) (dbl pf i)) (offY mesh),
             d_add pf (d_mul pf (sclZ mesh) (dbl pf m)) (offZ mesh)))
           [0 ..< numX mesh + 1]) [0 ..< numY mesh + 1]))
           [myStartZ mesh ..< myStartZ mesh + (myNumZ mesh + 1)])"
  have len: "length ?grid = node_count_proc mesh"
    unfolding node_count_proc_def by (rule grid_length)
  show ?thesis
    unfolding coordinates_def Let_def coordinates_fill Option.bind_lunit prod.case
      coordinates_rotation [OF len]
    by simp
qed




subsection \<open>The separated coordinates\<close>

lemma block_write:
  assumes "k + L \<le> length x" and "length g = L"
  shows "take (k + L) (take k x @ g @ drop (k + L) x) = take k x @ g"
    and "drop (k + L + n) (take k x @ g @ drop (k + L) x) = drop (k + L + n) x"
    and "length (take k x @ g @ drop (k + L) x) = length x"
  using assms by (auto simp: min_def ac_simps)

lemma for_loop_blocks:
  fixes body :: "nat \<Rightarrow> 'a list \<times> 'a list \<times> 'a list \<times> nat \<Rightarrow> ('a list \<times> 'a list \<times> 'a list \<times> nat) option"
  assumes step: "\<And>i x y z k. i \<in> set js \<Longrightarrow> k + L \<le> length x \<Longrightarrow> k + L \<le> length y
        \<Longrightarrow> k + L \<le> length z \<Longrightarrow>
        body i (x, y, z, k) = Some (take k x @ gx i @ drop (k + L) x,
                                   take k y @ gy i @ drop (k + L) y,
                                   take k z @ gz i @ drop (k + L) z, k + L)"
    and len: "\<And>i. i \<in> set js \<Longrightarrow> length (gx i) = L \<and> length (gy i) = L \<and> length (gz i) = L"
    and bounds: "k + length js * L \<le> length x" "k + length js * L \<le> length y"
      "k + length js * L \<le> length z"
  shows "for_loop js body (x, y, z, k) =
           Some (take k x @ concat (map gx js) @ drop (k + length js * L) x,
                 take k y @ concat (map gy js) @ drop (k + length js * L) y,
                 take k z @ concat (map gz js) @ drop (k + length js * L) z,
                 k + length js * L)"
  using assms
proof (induction js arbitrary: x y z k)
  case Nil
  then show ?case by simp
next
  case (Cons i js)
  let ?x = "take k x @ gx i @ drop (k + L) x"
  let ?y = "take k y @ gy i @ drop (k + L) y"
  let ?z = "take k z @ gz i @ drop (k + L) z"
  from Cons.prems(3-5) have fit: "k + L \<le> length x" "k + L \<le> length y" "k + L \<le> length z"
    by simp_all
  from Cons.prems(2) [of i] have g: "length (gx i) = L" "length (gy i) = L" "length (gz i) = L"
    by simp_all
  have first: "body i (x, y, z, k) = Some (?x, ?y, ?z, k + L)"
    by (rule Cons.prems(1)) (use fit in simp_all)
  have rest: "for_loop js body (?x, ?y, ?z, k + L) =
           Some (take (k + L) ?x @ concat (map gx js) @ drop (k + L + length js * L) ?x,
                 take (k + L) ?y @ concat (map gy js) @ drop (k + L + length js * L) ?y,
                 take (k + L) ?z @ concat (map gz js) @ drop (k + L + length js * L) ?z,
                 k + L + length js * L)"
  proof (rule Cons.IH)
    fix j k' and x' y' z' :: "'a list"
    assume "j \<in> set js" "k' + L \<le> length x'" "k' + L \<le> length y'" "k' + L \<le> length z'"
    then show "body j (x', y', z', k') = Some (take k' x' @ gx j @ drop (k' + L) x',
                                   take k' y' @ gy j @ drop (k' + L) y',
                                   take k' z' @ gz j @ drop (k' + L) z', k' + L)"
      using Cons.prems(1) [of j k' x' y' z'] by simp
  next
    fix j assume "j \<in> set js"
    then show "length (gx j) = L \<and> length (gy j) = L \<and> length (gz j) = L"
      using Cons.prems(2) [of j] by simp
  next
    show "k + L + length js * L \<le> length ?x"
      using Cons.prems(3) by (simp only: block_write(3) [OF fit(1) g(1)]) simp
    show "k + L + length js * L \<le> length ?y"
      using Cons.prems(4) by (simp only: block_write(3) [OF fit(2) g(2)]) simp
    show "k + L + length js * L \<le> length ?z"
      using Cons.prems(5) by (simp only: block_write(3) [OF fit(3) g(3)]) simp
  qed
  show ?case
    unfolding for_loop.simps first Option.bind_lunit rest
      block_write(1) [OF fit(1) g(1)] block_write(2) [OF fit(1) g(1)]
      block_write(1) [OF fit(2) g(2)] block_write(2) [OF fit(2) g(2)]
      block_write(1) [OF fit(3) g(3)] block_write(2) [OF fit(3) g(3)]
    by (simp add: add.assoc)
qed


lemma xyz_fill:
  fixes fx fy fz :: "nat \<Rightarrow> 'a"
  defines "cell \<equiv> (\<lambda>m i j (x, y, z, k). do {
               x \<leftarrow> vec_set x k (fx j);
               y \<leftarrow> vec_set y k (fy i);
               z \<leftarrow> vec_set z k (fz m);
               Some (x, y, z, k + 1)
             })"
  assumes "length x = a * b * c" and "length y = a * b * c" and "length z = a * b * c"
  shows "for_loop [s ..< s + c] (\<lambda>m. for_loop [0 ..< b] (\<lambda>i. for_loop [0 ..< a] (cell m i)))
           (x, y, z, 0)
         = Some (concat (map (\<lambda>m. concat (map (\<lambda>i. map (\<lambda>j. fx j) [0 ..< a]) [0 ..< b])) [s ..< s + c]),
                 concat (map (\<lambda>m. concat (map (\<lambda>i. map (\<lambda>j. fy i) [0 ..< a]) [0 ..< b])) [s ..< s + c]),
                 concat (map (\<lambda>m. concat (map (\<lambda>i. map (\<lambda>j. fz m) [0 ..< a]) [0 ..< b])) [s ..< s + c]),
                 a * b * c)"
proof -
  have one: "cell m i j (x, y, z, k) = Some (take k x @ [fx j] @ drop (k + 1) x,
                                   take k y @ [fy i] @ drop (k + 1) y,
                                   take k z @ [fz m] @ drop (k + 1) z, k + 1)"
    if "k + 1 \<le> length x" "k + 1 \<le> length y" "k + 1 \<le> length z"
    for m i j k and x y z :: "'a list"
    using that by (simp add: cell_def vec_set_def upd_conv_take_nth_drop)
  have row: "for_loop [0 ..< a] (cell m i) (x, y, z, k)
      = Some (take k x @ map (\<lambda>j. fx j) [0 ..< a] @ drop (k + a) x,
              take k y @ map (\<lambda>j. fy i) [0 ..< a] @ drop (k + a) y,
              take k z @ map (\<lambda>j. fz m) [0 ..< a] @ drop (k + a) z, k + a)"
    if "k + a \<le> length x" "k + a \<le> length y" "k + a \<le> length z"
    for m i k and x y z :: "'a list"
    using for_loop_blocks [of "[0 ..< a]" 1 "cell m i" "\<lambda>j. [fx j]" "\<lambda>j. [fy i]" "\<lambda>j. [fz m]" k x y z]
      one that
    by simp
  have layer: "for_loop [0 ..< b] (\<lambda>i. for_loop [0 ..< a] (cell m i)) (x, y, z, k)
      = Some (take k x @ concat (map (\<lambda>i. map (\<lambda>j. fx j) [0 ..< a]) [0 ..< b]) @ drop (k + b * a) x,
              take k y @ concat (map (\<lambda>i. map (\<lambda>j. fy i) [0 ..< a]) [0 ..< b]) @ drop (k + b * a) y,
              take k z @ concat (map (\<lambda>i. map (\<lambda>j. fz m) [0 ..< a]) [0 ..< b]) @ drop (k + b * a) z,
              k + b * a)"
    if "k + b * a \<le> length x" "k + b * a \<le> length y" "k + b * a \<le> length z"
    for m k and x y z :: "'a list"
    using for_loop_blocks [of "[0 ..< b]" a "\<lambda>i. for_loop [0 ..< a] (cell m i)"
        "\<lambda>i. map (\<lambda>j. fx j) [0 ..< a]" "\<lambda>i. map (\<lambda>j. fy i) [0 ..< a]"
        "\<lambda>i. map (\<lambda>j. fz m) [0 ..< a]" k x y z]
      row that
    by simp
  have layer_len: "length (concat (map (\<lambda>i. map (\<lambda>j. g i j) [0 ..< a]) [0 ..< b])) = b * a"
    for g :: "nat \<Rightarrow> nat \<Rightarrow> 'a"
    using length_concat_blocks [of "[0 ..< b]" "\<lambda>i. map (\<lambda>j. g i j) [0 ..< a]" a] by simp
  have "for_loop [s ..< s + c] (\<lambda>m. for_loop [0 ..< b] (\<lambda>i. for_loop [0 ..< a] (cell m i)))
           (x, y, z, 0)
      = Some (take 0 x @ concat (map (\<lambda>m. concat (map (\<lambda>i. map (\<lambda>j. fx j) [0 ..< a]) [0 ..< b])) [s ..< s + c])
                @ drop (0 + length [s ..< s + c] * (b * a)) x,
              take 0 y @ concat (map (\<lambda>m. concat (map (\<lambda>i. map (\<lambda>j. fy i) [0 ..< a]) [0 ..< b])) [s ..< s + c])
                @ drop (0 + length [s ..< s + c] * (b * a)) y,
              take 0 z @ concat (map (\<lambda>m. concat (map (\<lambda>i. map (\<lambda>j. fz m) [0 ..< a]) [0 ..< b])) [s ..< s + c])
                @ drop (0 + length [s ..< s + c] * (b * a)) z,
              0 + length [s ..< s + c] * (b * a))"
  proof (rule for_loop_blocks)
    fix m k and x y z :: "'a list"
    assume "k + b * a \<le> length x" "k + b * a \<le> length y" "k + b * a \<le> length z"
    then show "for_loop [0 ..< b] (\<lambda>i. for_loop [0 ..< a] (cell m i)) (x, y, z, k)
      = Some (take k x @ concat (map (\<lambda>i. map (\<lambda>j. fx j) [0 ..< a]) [0 ..< b]) @ drop (k + b * a) x,
              take k y @ concat (map (\<lambda>i. map (\<lambda>j. fy i) [0 ..< a]) [0 ..< b]) @ drop (k + b * a) y,
              take k z @ concat (map (\<lambda>i. map (\<lambda>j. fz m) [0 ..< a]) [0 ..< b]) @ drop (k + b * a) z,
              k + b * a)"
      by (rule layer)
  next
    fix m
    show "length (concat (map (\<lambda>i. map (\<lambda>j. fx j) [0 ..< a]) [0 ..< b])) = b * a
        \<and> length (concat (map (\<lambda>i. map (\<lambda>j. fy i) [0 ..< a]) [0 ..< b])) = b * a
        \<and> length (concat (map (\<lambda>i. map (\<lambda>j. fz m) [0 ..< a]) [0 ..< b])) = b * a"
      by (simp only: layer_len)
  next
    show "0 + length [s ..< s + c] * (b * a) \<le> length x"
      "0 + length [s ..< s + c] * (b * a) \<le> length y"
      "0 + length [s ..< s + c] * (b * a) \<le> length z"
      using assms(2-4) by (simp_all add: mult.commute mult.left_commute)
  qed
  moreover have "length [s ..< s + c] * (b * a) = a * b * c"
    by (simp add: mult.commute mult.left_commute)
  ultimately show ?thesis
    using assms(2-4) by simp
qed


lemma rotate_separated:
  fixes r0 r1 r2 :: "'a \<Rightarrow> 'a \<Rightarrow> 'a \<Rightarrow> 'a"
  defines "body \<equiv> (\<lambda>i (x, y, z). do {
           xn \<leftarrow> vec_get x i;
           yn \<leftarrow> vec_get y i;
           zn \<leftarrow> vec_get z i;
           x \<leftarrow> vec_set x i (r0 xn yn zn);
           y \<leftarrow> vec_set y i (r1 xn yn zn);
           z \<leftarrow> vec_set z i (r2 xn yn zn);
           Some (x, y, z)
         })"
  assumes "length px = k" and "length py = k" and "length pz = k"
  shows "for_loop (map (\<lambda>n. k + n) [0 ..< length ts]) body
           (px @ map fst ts, py @ map (\<lambda>t. fst (snd t)) ts, pz @ map (\<lambda>t. snd (snd t)) ts)
         = Some (px @ map (\<lambda>(a, b, c). r0 a b c) ts,
                 py @ map (\<lambda>(a, b, c). r1 a b c) ts,
                 pz @ map (\<lambda>(a, b, c). r2 a b c) ts)"
  using assms(2-4)
proof (induction ts arbitrary: px py pz k)
  case Nil
  show ?case by simp
next
  case (Cons t ts)
  obtain a b c where t: "t = (a, b, c)" by (cases t) auto
  let ?x = "map fst ts" and ?y = "map (\<lambda>t. fst (snd t)) ts" and ?z = "map (\<lambda>t. snd (snd t)) ts"
  have l: "length (px @ [r0 a b c]) = Suc k" "length (py @ [r1 a b c]) = Suc k"
    "length (pz @ [r2 a b c]) = Suc k"
    using Cons.prems by simp_all
  note rest = Cons.IH [OF l, unfolded append_assoc append_Cons append_Nil]
  have step: "body k (px @ a # ?x, py @ b # ?y, pz @ c # ?z)
      = Some (px @ r0 a b c # ?x, py @ r1 a b c # ?y, pz @ r2 a b c # ?z)"
    using Cons.prems
    by (simp add: body_def vec_get_def vec_set_def nth_append list_update_append)
  have idx: "map (\<lambda>n. k + n) [0 ..< length ((a, b, c) # ts)]
        = k # map (\<lambda>n. Suc k + n) [0 ..< length ts]"
    by (simp add: upt_conv_Cons map_Suc_upt [symmetric] del: upt_Suc)
  show ?case
    unfolding t idx
    by (simp only: list.map fst_conv snd_conv for_loop.simps step Option.bind_lunit rest prod.case)
qed

lemma grid_components:
  "map fst (concat (map (\<lambda>m. concat (map (\<lambda>i. map (\<lambda>j. (fx j, fy i, fz m)) js) is)) ms))
     = concat (map (\<lambda>m. concat (map (\<lambda>i. map (\<lambda>j. fx j) js) is)) ms)"
  "map (\<lambda>t. fst (snd t)) (concat (map (\<lambda>m. concat (map (\<lambda>i. map (\<lambda>j. (fx j, fy i, fz m)) js) is)) ms))
     = concat (map (\<lambda>m. concat (map (\<lambda>i. map (\<lambda>j. fy i) js) is)) ms)"
  "map (\<lambda>t. snd (snd t)) (concat (map (\<lambda>m. concat (map (\<lambda>i. map (\<lambda>j. (fx j, fy i, fz m)) js) is)) ms))
     = concat (map (\<lambda>m. concat (map (\<lambda>i. map (\<lambda>j. fz m) js) is)) ms)"
  by (simp_all add: map_concat comp_def)

lemma coordinates_xyz_eq:
  "coordinates_xyz pf mesh (x0, y0, z0) =
     (let nodes = (if doRotation mesh
         then map (\<lambda>(xn, yn, zn). (rotated pf (rotmat mesh) 0 xn yn zn,
                                     rotated pf (rotmat mesh) 1 xn yn zn,
                                     rotated pf (rotmat mesh) 2 xn yn zn))
         else (\<lambda>ts. ts))
        (concat (map (\<lambda>m. concat (map (\<lambda>i. map (\<lambda>j.
            (d_add pf (d_mul pf (sclX mesh) (dbl pf j)) (offX mesh),
             d_add pf (d_mul pf (sclY mesh) (dbl pf i)) (offY mesh),
             d_add pf (d_mul pf (sclZ mesh) (dbl pf m)) (offZ mesh)))
           [0 ..< numX mesh + 1]) [0 ..< numY mesh + 1]))
           [myStartZ mesh ..< myStartZ mesh + (myNumZ mesh + 1)]))
      in Some (map fst nodes, map (\<lambda>t. fst (snd t)) nodes, map (\<lambda>t. snd (snd t)) nodes))"
proof -
  let ?fx = "\<lambda>j. d_add pf (d_mul pf (sclX mesh) (dbl pf j)) (offX mesh)"
  let ?fy = "\<lambda>i. d_add pf (d_mul pf (sclY mesh) (dbl pf i)) (offY mesh)"
  let ?fz = "\<lambda>m. d_add pf (d_mul pf (sclZ mesh) (dbl pf m)) (offZ mesh)"
  let ?grid = "concat (map (\<lambda>m. concat (map (\<lambda>i. map (\<lambda>j. (?fx j, ?fy i, ?fz m))
           [0 ..< numX mesh + 1]) [0 ..< numY mesh + 1]))
           [myStartZ mesh ..< myStartZ mesh + (myNumZ mesh + 1)])"
  let ?count = "node_count_proc mesh"
  have len: "length ?grid = ?count"
    unfolding node_count_proc_def by (rule grid_length)
  have fill: "for_loop [myStartZ mesh ..< myStartZ mesh + myNumZ mesh + 1] (\<lambda>m.
         for_loop [0 ..< numY mesh + 1] (\<lambda>i.
           for_loop [0 ..< numX mesh + 1] (\<lambda>j (x, y, z, k). do {
               x \<leftarrow> vec_set x k (d_add pf (d_mul pf (sclX mesh) (dbl pf j)) (offX mesh));
               y \<leftarrow> vec_set y k (d_add pf (d_mul pf (sclY mesh) (dbl pf i)) (offY mesh));
               z \<leftarrow> vec_set z k (d_add pf (d_mul pf (sclZ mesh) (dbl pf m)) (offZ mesh));
               Some (x, y, z, k + 1)
             })))
         (resize ?count (dbl pf 0) x0, resize ?count (dbl pf 0) y0, resize ?count (dbl pf 0) z0, 0)
       = Some (map fst ?grid, map (\<lambda>t. fst (snd t)) ?grid, map (\<lambda>t. snd (snd t)) ?grid, ?count)"
    unfolding grid_components add.assoc
    using xyz_fill [where x = "resize ?count (dbl pf 0) x0" and a = "numX mesh + 1"
        and b = "numY mesh + 1" and c = "myNumZ mesh + 1"
        and y = "resize ?count (dbl pf 0) y0" and z = "resize ?count (dbl pf 0) z0"
        and fx = ?fx and fy = ?fy and fz = ?fz and s = "myStartZ mesh"]
    by (simp only: length_resize node_count_proc_def)
  have rot: "for_loop [0 ..< ?count] (\<lambda>i (x, y, z). do {
           xn \<leftarrow> vec_get x i;
           yn \<leftarrow> vec_get y i;
           zn \<leftarrow> vec_get z i;
           x \<leftarrow> vec_set x i (rotated pf (rotmat mesh) 0 xn yn zn);
           y \<leftarrow> vec_set y i (rotated pf (rotmat mesh) 1 xn yn zn);
           z \<leftarrow> vec_set z i (rotated pf (rotmat mesh) 2 xn yn zn);
           Some (x, y, z)
         }) (map fst ?grid, map (\<lambda>t. fst (snd t)) ?grid, map (\<lambda>t. snd (snd t)) ?grid)
       = Some (map (\<lambda>(a, b, c). rotated pf (rotmat mesh) 0 a b c) ?grid,
               map (\<lambda>(a, b, c). rotated pf (rotmat mesh) 1 a b c) ?grid,
               map (\<lambda>(a, b, c). rotated pf (rotmat mesh) 2 a b c) ?grid)"
    using rotate_separated [where px = "[]" and k = 0 and py = "[]" and pz = "[]"
        and ts = ?grid and ?r0.0 = "rotated pf (rotmat mesh) 0"
        and ?r1.0 = "rotated pf (rotmat mesh) 1" and ?r2.0 = "rotated pf (rotmat mesh) 2"]
    by (simp only: len list.size append_Nil add_0 map_ident [unfolded id_def])
  show ?thesis
    unfolding coordinates_xyz_def prod.case Let_def fill Option.bind_lunit rot
    by (simp add: case_prod_beta comp_def)
qed




end
